theory Spec2Isabelle
  imports Main
begin

section \<open>Argument tokenizer (MiscUtils.cpp, splitCommandLineArguments)\<close>

text \<open>
  A \<open>QString\<close> is modelled as a \<open>string\<close>. The tokenizer only compares characters with
  the double quote, the backslash and the space, so the width of a character plays no role.
\<close>

abbreviation dquote :: char where
  "dquote \<equiv> CHR 0x22"

abbreviation bslash :: char where
  "bslash \<equiv> CHR 0x5C"

abbreviation space :: char where
  "space \<equiv> CHR 0x20"

text \<open>\<open>struct Argument { QString str; bool wasQuoted; }\<close>\<close>

record Argument =
  str :: string
  wasQuoted :: bool

text \<open>The local variables of the loop: \<open>args\<close>, \<open>currentArg\<close>, \<open>escaped\<close>, \<open>inQuotes\<close>.\<close>

record split_state =
  args :: "Argument list"
  currentArg :: string
  escaped :: bool
  inQuotes :: bool

definition split_init :: split_state where
  "split_init = \<lparr>args = [], currentArg = [], escaped = False, inQuotes = False\<rparr>"

text \<open>One iteration of the \<open>for\<close> loop, on the character \<open>currentChar\<close>.\<close>

definition split_step :: "split_state \<Rightarrow> char \<Rightarrow> split_state" where
  "split_step st currentChar =
     (if escaped st then
        st\<lparr>escaped := False, currentArg := currentArg st @ [currentChar]\<rparr>
      else if inQuotes st then
        (if currentChar = bslash then st\<lparr>escaped := True\<rparr>
         else if currentChar = dquote then
           st\<lparr>inQuotes := False,
              args := args st @ [\<lparr>str = currentArg st, wasQuoted = True\<rparr>],
              currentArg := []\<rparr>
         else st\<lparr>currentArg := currentArg st @ [currentChar]\<rparr>)
      else
        (if currentChar = bslash then st\<lparr>escaped := True\<rparr>
         else if currentChar = dquote then
           (if currentArg st \<noteq> [] then
              st\<lparr>inQuotes := True,
                 args := args st @ [\<lparr>str = currentArg st, wasQuoted = False\<rparr>],
                 currentArg := []\<rparr>
            else st\<lparr>inQuotes := True\<rparr>)
         else if currentChar = space then
           (if currentArg st \<noteq> [] then
              st\<lparr>args := args st @ [\<lparr>str = currentArg st, wasQuoted = False\<rparr>],
                 currentArg := []\<rparr>
            else st)
         else st\<lparr>currentArg := currentArg st @ [currentChar]\<rparr>))"

text \<open>The whole loop, from position 0 to the end of \<open>argsStr\<close>.\<close>

definition split_scan :: "string \<Rightarrow> split_state" where
  "split_scan argsStr = foldl split_step split_init argsStr"

text \<open>
  The code after the loop. \<open>argsStr.back()\<close> is only read when \<open>currentArg\<close> is not
  empty and \<open>inQuotes\<close> holds, hence when \<open>argsStr\<close> is not empty.
\<close>

definition split_finish :: "string \<Rightarrow> split_state \<Rightarrow> Argument list" where
  "split_finish argsStr st =
     (if currentArg st \<noteq> [] then
        args st @ [\<lparr>str = currentArg st, wasQuoted = (inQuotes st \<and> last argsStr \<noteq> dquote)\<rparr>]
      else args st)"

definition splitCommandLineArguments :: "string \<Rightarrow> Argument list" where
  "splitCommandLineArguments argsStr = split_finish argsStr (split_scan argsStr)"


text \<open>The input of the spec's tokenizer example: \<open>foo "bar baz" qux\"x\<close>.\<close>

definition example_args :: string where
  "example_args = ''foo '' @ [dquote] @ ''bar baz'' @ [dquote] @ '' qux'' @ [bslash, dquote] @ ''x''"


text \<open>A token glued to a quoted one: \<open>-file"my mod.wad"\<close>.\<close>

definition example_file_arg :: string where
  "example_file_arg = ''-file'' @ [dquote] @ ''my mod.wad'' @ [dquote]"


section \<open>List view and list model (WidgetUtils.hpp)\<close>

text \<open>
  The state the button actions work on: the list behind the \<open>AListModel\<close>, and of the
  \<open>QListView\<close> the rows of \<open>selectionModel()->selectedIndexes()\<close> (in the order in which
  they were selected, as the comments in the source say) and the row of the current index,
  \<open>-1\<close> when there is none. Rows are \<open>int\<close>, as in the source.
\<close>

record 'a list_state =
  items :: "'a list"
  selectedIndexes :: "int list"
  currentIndex :: int

definition validIndex :: "'a list_state \<Rightarrow> int \<Rightarrow> bool" where
  "validIndex st i = (0 \<le> i \<and> i < int (length (items st)))"

text \<open>
  WidgetUtils.hpp only declares the helpers of the list view; their bodies are in
  WidgetUtils.cpp, which is not among the sources. The definitions below follow their
  names, the comments at their declarations and the selection model of Qt: a row outside
  the model gives an invalid index, which cannot be selected and as current index means
  "none".
\<close>

text \<open>Modelled from the spec: \<open>getCurrentItemIndex\<close> (body missing), the row of the current
  index, \<open>-1\<close> when there is none.\<close>

definition getCurrentItemIndex :: "'a list_state \<Rightarrow> int" where
  "getCurrentItemIndex st = currentIndex st"

text \<open>Modelled from the spec: \<open>setCurrentItemByIndex\<close> (body missing), the index of the row
  becomes the current one; the selection stays.\<close>

definition setCurrentItemByIndex :: "'a list_state \<Rightarrow> int \<Rightarrow> 'a list_state" where
  "setCurrentItemByIndex st index = st\<lparr>currentIndex := (if validIndex st index then index else -1)\<rparr>"

text \<open>Modelled from the spec: \<open>unsetCurrentItem\<close> (body missing).\<close>

definition unsetCurrentItem :: "'a list_state \<Rightarrow> 'a list_state" where
  "unsetCurrentItem st = st\<lparr>currentIndex := -1\<rparr>"

text \<open>Modelled from the spec: \<open>getSelectedItemIndex\<close> (body missing); its declaration says
  "assumes a single-selection mode, will throw a message box error otherwise": the one
  selected row, \<open>-1\<close> when none or several are selected.\<close>

definition getSelectedItemIndex :: "'a list_state \<Rightarrow> int" where
  "getSelectedItemIndex st = (case selectedIndexes st of [i] \<Rightarrow> i | _ \<Rightarrow> -1)"

text \<open>Modelled from the spec: \<open>getSelectedItemIndexes\<close> (body missing), the selected rows.\<close>

definition getSelectedItemIndexes :: "'a list_state \<Rightarrow> int list" where
  "getSelectedItemIndexes st = selectedIndexes st"

text \<open>Modelled from the spec: \<open>selectItemByIndex\<close> (body missing), the row joins the
  selection, once.\<close>

definition selectItemByIndex :: "'a list_state \<Rightarrow> int \<Rightarrow> 'a list_state" where
  "selectItemByIndex st index =
     (if validIndex st index \<and> index \<notin> set (selectedIndexes st)
      then st\<lparr>selectedIndexes := selectedIndexes st @ [index]\<rparr> else st)"

text \<open>Modelled from the spec: \<open>deselectItemByIndex\<close> (body missing).\<close>

definition deselectItemByIndex :: "'a list_state \<Rightarrow> int \<Rightarrow> 'a list_state" where
  "deselectItemByIndex st index = st\<lparr>selectedIndexes := removeAll index (selectedIndexes st)\<rparr>"

text \<open>Modelled from the spec: \<open>deselectSelectedItems\<close> (body missing).\<close>

definition deselectSelectedItems :: "'a list_state \<Rightarrow> 'a list_state" where
  "deselectSelectedItems st = st\<lparr>selectedIndexes := []\<rparr>"

text \<open>Modelled from the spec: \<open>selectAndSetCurrentByIndex\<close> (body missing).\<close>

definition selectAndSetCurrentByIndex :: "'a list_state \<Rightarrow> int \<Rightarrow> 'a list_state" where
  "selectAndSetCurrentByIndex st index = setCurrentItemByIndex (selectItemByIndex st index) index"

text \<open>Modelled from the spec: \<open>deselectAllAndUnsetCurrent\<close> (body missing).\<close>

definition deselectAllAndUnsetCurrent :: "'a list_state \<Rightarrow> 'a list_state" where
  "deselectAllAndUnsetCurrent st = unsetCurrentItem (deselectSelectedItems st)"

text \<open>
  \<open>AListModel\<close> (Widgets/ListModel.hpp, not among the sources) wraps a \<open>QList\<close>. Its
  notifications \<open>startCompleteUpdate\<close>, \<open>finishCompleteUpdate\<close>, \<open>orderAboutToChange\<close>
  and \<open>orderChanged\<close> change neither the list nor, after the callers have deselected,
  the view.
\<close>

text \<open>Modelled from the spec: \<open>AListModel::removeAt\<close> (missing), as \<open>QList::removeAt\<close>:
  a row outside the list leaves the list alone.\<close>

definition removeAt :: "int \<Rightarrow> 'a list \<Rightarrow> 'a list" where
  "removeAt i xs =
     (if 0 \<le> i \<and> i < int (length xs) then take (nat i) xs @ drop (Suc (nat i)) xs else xs)"

text \<open>Modelled from the spec: \<open>AListModel::move\<close> (missing), as \<open>QList::move\<close>: the
  item of row \<open>fromIdx\<close> is taken out and put back at row \<open>toIdx\<close>.\<close>

definition move :: "int \<Rightarrow> int \<Rightarrow> 'a list \<Rightarrow> 'a list" where
  "move fromIdx toIdx xs =
     (if 0 \<le> fromIdx \<and> fromIdx < int (length xs) \<and> 0 \<le> toIdx \<and> toIdx < int (length xs)
      then (let x = xs ! nat fromIdx; ys = removeAt fromIdx xs
            in take (nat toIdx) ys @ [x] @ drop (nat toIdx) ys)
      else xs)"

text \<open>Modelled from the spec: \<open>findSuch\<close> (LangUtils.hpp, missing): the index of the first
  element that satisfies the condition, \<open>-1\<close> when there is none.\<close>

fun findSuch :: "'a list \<Rightarrow> ('a \<Rightarrow> bool) \<Rightarrow> int" where
  "findSuch [] condition = -1"
| "findSuch (x # xs) condition =
     (if condition x then 0
      else (let r = findSuch xs condition in if r < 0 then -1 else r + 1))"

subsection \<open>deleteSelectedItems\<close>

text \<open>
  The deleting loop. \<open>deletedCnt\<close> is a \<open>uint\<close>, so \<open>selectedIdx - deletedCnt\<close> is computed
  modulo \<open>2^32\<close> and converted back to the \<open>int\<close> parameter of \<open>removeAt\<close>; for rows and
  counts below \<open>2^31\<close> that is the integer difference.
\<close>

fun removeSelected :: "int list \<Rightarrow> nat \<Rightarrow> 'a list \<Rightarrow> 'a list" where
  "removeSelected [] deletedCnt xs = xs"
| "removeSelected (selectedIdx # rest) deletedCnt xs =
     removeSelected rest (Suc deletedCnt) (removeAt (selectedIdx - int deletedCnt) xs)"

text \<open>
  The result is the new state and the returned vector. With nothing selected the source
  shows a warning box (when the model is not empty) and returns the empty vector.
\<close>

definition deleteSelectedItems :: "'a list_state \<Rightarrow> 'a list_state \<times> int list" where
  "deleteSelectedItems st =
     (if selectedIndexes st = [] then (st, [])
      else
        (let selectedIndexesAsc = sort (selectedIndexes st);
             firstSelectedIdx = hd selectedIndexesAsc;
             st1 = deselectAllAndUnsetCurrent st;
             st2 = st1\<lparr>items := removeSelected selectedIndexesAsc 0 (items st1)\<rparr>;
             st3 = (if firstSelectedIdx < int (length (items st2))
                    then selectAndSetCurrentByIndex st2 firstSelectedIdx
                    else if items st2 \<noteq> []
                    then selectAndSetCurrentByIndex st2 (firstSelectedIdx - 1)
                    else st2)
         in (st3, selectedIndexesAsc)))"

subsection \<open>moveUpSelectedItem, moveDownSelectedItem\<close>

text \<open>With nothing selected both show a warning box and return \<open>-1\<close>.\<close>

definition moveUpSelectedItem :: "'a list_state \<Rightarrow> 'a list_state \<times> int" where
  "moveUpSelectedItem st =
     (let selectedIdx = getSelectedItemIndex st in
      if selectedIdx < 0 then (st, -1)
      else if selectedIdx = 0 then (st, selectedIdx)
      else
        (let currentIdx = getCurrentItemIndex st;
             st1 = deselectItemByIndex (unsetCurrentItem st) selectedIdx;
             st2 = st1\<lparr>items := move selectedIdx (selectedIdx - 1) (items st1)\<rparr>;
             st3 = selectAndSetCurrentByIndex st2 (selectedIdx - 1);
             st4 = (if currentIdx \<ge> 1 then setCurrentItemByIndex st3 (currentIdx - 1)
                    else setCurrentItemByIndex st3 0)
         in (st4, selectedIdx)))"

definition moveDownSelectedItem :: "'a list_state \<Rightarrow> 'a list_state \<times> int" where
  "moveDownSelectedItem st =
     (let selectedIdx = getSelectedItemIndex st in
      if selectedIdx < 0 then (st, -1)
      else if selectedIdx = int (length (items st)) - 1 then (st, selectedIdx)
      else
        (let currentIdx = getCurrentItemIndex st;
             st1 = deselectItemByIndex (unsetCurrentItem st) selectedIdx;
             st2 = st1\<lparr>items := move selectedIdx (selectedIdx + 1) (items st1)\<rparr>;
             st3 = selectAndSetCurrentByIndex st2 (selectedIdx + 1);
             st4 = (if currentIdx < int (length (items st3)) - 1
                    then setCurrentItemByIndex st3 (currentIdx + 1)
                    else setCurrentItemByIndex st3 (int (length (items st3)) - 1))
         in (st4, selectedIdx)))"

subsection \<open>updateListFromDir\<close>

text \<open>
  \<open>getID\<close> is the \<open>Item::getID\<close> of the item type; an ID is a \<open>QString\<close>, the empty
  string standing for "no item". \<open>model[i]\<close> is read only at rows of the view.
\<close>

definition getCurrentItemID :: "('a \<Rightarrow> string) \<Rightarrow> 'a list_state \<Rightarrow> string" where
  "getCurrentItemID getID st =
     (let selectedItemIdx = getCurrentItemIndex st in
      if selectedItemIdx \<ge> 0 then getID (items st ! nat selectedItemIdx) else [])"

definition getSelectedItemIDs :: "('a \<Rightarrow> string) \<Rightarrow> 'a list_state \<Rightarrow> string list" where
  "getSelectedItemIDs getID st =
     map (\<lambda>selectedItemIdx. getID (items st ! nat selectedItemIdx)) (getSelectedItemIndexes st)"

definition setCurrentItemByID ::
  "('a \<Rightarrow> string) \<Rightarrow> 'a list_state \<Rightarrow> string \<Rightarrow> 'a list_state \<times> bool" where
  "setCurrentItemByID getID st itemID =
     (if itemID \<noteq> [] then
        (let newItemIdx = findSuch (items st) (\<lambda>item. getID item = itemID) in
         if newItemIdx \<ge> 0 then (setCurrentItemByIndex st newItemIdx, True) else (st, False))
      else (st, False))"

definition selectItemsByIDs ::
  "('a \<Rightarrow> string) \<Rightarrow> 'a list_state \<Rightarrow> string list \<Rightarrow> 'a list_state" where
  "selectItemsByIDs getID st itemIDs =
     foldl (\<lambda>s itemID.
              (let newItemIdx = findSuch (items s) (\<lambda>item. getID item = itemID) in
               if newItemIdx \<ge> 0 then selectItemByIndex s newItemIdx else s))
           st itemIDs"

text \<open>Modelled from the spec: \<open>traverseDirectory\<close> (FileSystemUtils, missing) calls its
  visitor on the files of the directory, one after the other, "preserving scan order";
  \<open>files\<close> is that sequence, \<open>isDesiredFile\<close> the filter and \<open>mkItem\<close> the constructor
  \<open>Item( file )\<close>. The function is the list the visitor of \<open>updateListFromDir\<close>
  builds from the cleared model.\<close>

definition scanDir :: "('f \<Rightarrow> bool) \<Rightarrow> ('f \<Rightarrow> 'a) \<Rightarrow> 'f list \<Rightarrow> 'a list" where
  "scanDir isDesiredFile mkItem files =
     foldl (\<lambda>model file. if isDesiredFile file then model @ [mkItem file] else model) [] files"

text \<open>
  The position of the scroll bar, which the source saves and restores, is not part of the
  state.
\<close>

definition updateListFromDir ::
  "('a \<Rightarrow> string) \<Rightarrow> ('f \<Rightarrow> bool) \<Rightarrow> ('f \<Rightarrow> 'a) \<Rightarrow> 'f list \<Rightarrow> 'a list_state \<Rightarrow> 'a list_state" where
  "updateListFromDir getID isDesiredFile mkItem files st =
     (let currentItemID = getCurrentItemID getID st;
          selectedItemIDs = getSelectedItemIDs getID st;
          st1 = deselectAllAndUnsetCurrent st;
          st2 = st1\<lparr>items := scanDir isDesiredFile mkItem files\<rparr>;
          st3 = selectItemsByIDs getID st2 selectedItemIDs
      in fst (setCurrentItemByID getID st3 currentItemID))"


text \<open>
  The selection that \<open>selectItemsByIDs\<close> builds, as a function of the list alone: used
  to state its effect.
\<close>

definition restoreRows :: "('a \<Rightarrow> string) \<Rightarrow> 'a list \<Rightarrow> int list \<Rightarrow> string list \<Rightarrow> int list" where
  "restoreRows getID model rows itemIDs =
     foldl (\<lambda>acc itemID.
              (let idx = findSuch model (\<lambda>item. getID item = itemID) in
               if idx \<ge> 0 \<and> idx \<notin> set acc then acc @ [idx] else acc))
           rows itemIDs"


text \<open>
  Two lists for the examples: the files \<open>c\<close>, \<open>d\<close>, \<open>a\<close>, all selected, with
  \<open>c\<close> or \<open>d\<close> the current one. An item is its file name, which is also its ID.
\<close>

definition example_list :: "string list_state" where
  "example_list = \<lparr>items = [''c'', ''d'', ''a''], selectedIndexes = [2, 0, 1], currentIndex = 0\<rparr>"

definition example_stale :: "string list_state" where
  "example_stale = \<lparr>items = [''c'', ''d'', ''a''], selectedIndexes = [2, 0, 1], currentIndex = 1\<rparr>"


section \<open>Run command (OSUtils.cpp)\<close>

text \<open>\<open>enum class Sandbox { None, Snap, Flatpak }\<close> and \<open>struct ExecutableTraits\<close>.\<close>

datatype Sandbox = Sandbox_None | Sandbox_Snap | Sandbox_Flatpak

record ExecutableTraits =
  executableBaseName :: string
  sandboxEnv :: Sandbox
  sandboxAppName :: string

text \<open>\<open>struct ShellCommand { QString executable; QStringList arguments; QStringList extraPermissions; }\<close>\<close>

record ShellCommand =
  executable :: string
  arguments :: "string list"
  extraPermissions :: "string list"

text \<open>
  What the function reads from outside: whether the launcher is compiled with
  \<open>FLATPAK_BUILD\<close>, \<open>isWindows()\<close>, \<open>QApplication::applicationDirPath()\<close>,
  \<open>QStandardPaths::findExecutable\<close>, and of FileSystemUtils (missing) the two functions
  that ask the file system, \<open>getAbsolutePath\<close> and \<open>getAbsoluteDirOfFile\<close>.
\<close>

record os_env =
  flatpakBuild :: bool
  isWindows :: bool
  applicationDirPath :: string
  findExecutable :: "string \<Rightarrow> string"
  getAbsolutePath :: "string \<Rightarrow> string"
  getAbsoluteDirOfFile :: "string \<Rightarrow> string"

text \<open>Modelled from the spec: \<open>getFileNameFromPath\<close> (FileSystemUtils, missing), the
  "bare name" of a file: the part of the path after its last \<open>/\<close>.\<close>

definition getFileNameFromPath :: "string \<Rightarrow> string" where
  "getFileNameFromPath path = rev (takeWhile (\<lambda>c. c \<noteq> CHR ''/'') (rev path))"

text \<open>Modelled from the spec: \<open>getFileBasenameFromPath\<close> (FileSystemUtils, missing), the
  file name up to its first dot.\<close>

definition getFileBasenameFromPath :: "string \<Rightarrow> string" where
  "getFileBasenameFromPath path = takeWhile (\<lambda>c. c \<noteq> CHR ''.'') (getFileNameFromPath path)"

text \<open>Modelled from the spec: \<open>PathContext\<close> (FileSystemUtils.hpp, missing), the "base
  path context" with its "absolute-paths toggle". How a path is made absolute or relative
  against the base directory is left to the two functions of the record.\<close>

record PathContext =
  useAbsolutePaths :: bool
  toAbsolute :: "string \<Rightarrow> string"
  toRelative :: "string \<Rightarrow> string"

text \<open>Modelled from the spec: \<open>PathContext::rebasePath\<close> (missing), the path "relative to
  or absolute from the base path context per the absolute-paths toggle".\<close>

definition rebasePath :: "PathContext \<Rightarrow> string \<Rightarrow> string" where
  "rebasePath base path = (if useAbsolutePaths base then toAbsolute base path else toRelative base path)"

text \<open>Modelled from the spec: \<open>quoted\<close> (missing), the path between double quotes.\<close>

definition quoted :: "string \<Rightarrow> string" where
  "quoted path = [dquote] @ path @ [dquote]"

text \<open>Modelled from the spec: \<open>PathContext::maybeQuoted\<close> (missing), "quoting if it
  contains spaces".\<close>

definition maybeQuoted :: "PathContext \<Rightarrow> string \<Rightarrow> string" where
  "maybeQuoted base path = (if space \<in> set path then quoted path else path)"

definition isInSearchPath :: "os_env \<Rightarrow> string \<Rightarrow> bool" where
  "isInSearchPath env filePath = (findExecutable env (getFileNameFromPath filePath) = filePath)"

text \<open>The regular expression \<open>^/snap/\<close>.\<close>

definition snapRegex_match :: "string \<Rightarrow> bool" where
  "snapRegex_match path = (take 6 path = ''/snap/'')"

text \<open>
  The regular expression \<open>^/var/lib/flatpak/app/([^/]+)/\<close>: the result is the first
  captured group of a match. The group is the longest run without \<open>/\<close> after the prefix;
  it must not be empty and a \<open>/\<close> must follow it.
\<close>

definition flatpakRegex_match :: "string \<Rightarrow> string option" where
  "flatpakRegex_match path =
     (let rest = drop 21 path; name = takeWhile (\<lambda>c. c \<noteq> CHR ''/'') rest in
      if take 21 path = ''/var/lib/flatpak/app/'' \<and> name \<noteq> [] \<and> length name < length rest
      then Some name else None)"

definition getExecutableTraits :: "string \<Rightarrow> ExecutableTraits" where
  "getExecutableTraits executablePath =
     (if snapRegex_match executablePath then
        \<lparr>executableBaseName = getFileBasenameFromPath executablePath,
         sandboxEnv = Sandbox_Snap,
         sandboxAppName = getFileNameFromPath executablePath\<rparr>
      else case flatpakRegex_match executablePath of
        Some captured \<Rightarrow>
          \<lparr>executableBaseName = getFileBasenameFromPath executablePath,
           sandboxEnv = Sandbox_Flatpak,
           sandboxAppName = captured\<rparr>
      | None \<Rightarrow>
          \<lparr>executableBaseName = getFileBasenameFromPath executablePath,
           sandboxEnv = Sandbox_None,
           sandboxAppName = []\<rparr>)"

definition fixExePath :: "os_env \<Rightarrow> string \<Rightarrow> string" where
  "fixExePath env exePath =
     (if \<not> isWindows env \<and> CHR ''/'' \<notin> set exePath then ''./'' @ exePath else exePath)"

text \<open>
  The loop over \<open>dirsToBeAccessed\<close> in the Flatpak branch, on the pair of \<open>cmdParts\<close> and
  \<open>cmd.extraPermissions\<close>.
\<close>

definition grantDirs ::
  "os_env \<Rightarrow> PathContext \<Rightarrow> string list \<Rightarrow> string list \<times> string list \<Rightarrow> string list \<times> string list" where
  "grantDirs env base dirsToBeAccessed acc =
     foldl (\<lambda>(cmdParts, perms) dir.
              (let fileSystemPermission = ''--filesystem='' @ getAbsolutePath env dir
               in (cmdParts @ [maybeQuoted base fileSystemPermission], perms @ [fileSystemPermission])))
           acc dirsToBeAccessed"

text \<open>
  \<open>cmdParts\<close> and \<open>cmd.extraPermissions\<close> after the chain of branches on the traits, from
  the \<open>cmdParts\<close> before it.
\<close>

definition sandboxParts ::
  "os_env \<Rightarrow> string \<Rightarrow> PathContext \<Rightarrow> string list \<Rightarrow> string list \<Rightarrow> string list \<times> string list" where
  "sandboxParts env executablePath base dirsToBeAccessed cmdParts =
     (let traits = getExecutableTraits executablePath in
      if sandboxEnv traits = Sandbox_Snap then
        (cmdParts @ [''snap'', ''run'', sandboxAppName traits], [])
      else if sandboxEnv traits = Sandbox_Flatpak then
        (let (parts, perms) = grantDirs env base dirsToBeAccessed (cmdParts @ [''flatpak'', ''run''], [])
         in (parts @ [sandboxAppName traits], perms))
      else if isInSearchPath env executablePath then
        (cmdParts @ [getFileNameFromPath executablePath], [])
      else
        (cmdParts @ [maybeQuoted base (fixExePath env (rebasePath base executablePath))], []))"

text \<open>
  With \<open>FLATPAK_BUILD\<close> an executable in the directory of the launcher returns early, and
  any other starts from \<open>flatpak-spawn --host\<close>. \<open>cmdParts\<close> is never empty at
  \<open>takeFirst\<close>.
\<close>

definition getRunCommand :: "os_env \<Rightarrow> string \<Rightarrow> PathContext \<Rightarrow> string list \<Rightarrow> ShellCommand" where
  "getRunCommand env executablePath base dirsToBeAccessed =
     (if flatpakBuild env \<and> getAbsoluteDirOfFile env executablePath = applicationDirPath env then
        \<lparr>executable = getFileNameFromPath executablePath, arguments = [], extraPermissions = []\<rparr>
      else
        (let cmdParts0 = (if flatpakBuild env then [''flatpak-spawn'', ''--host''] else []);
             (cmdParts, perms) = sandboxParts env executablePath base dirsToBeAccessed cmdParts0
         in \<lparr>executable = hd cmdParts, arguments = tl cmdParts, extraPermissions = perms\<rparr>))"

text \<open>
  A Unix environment for the examples: a launcher installed in \<open>/usr/bin\<close>, or, built
  as Flatpak, in \<open>/app/bin\<close>; \<open>gzdoom\<close> is the one executable on the search path.
\<close>

definition dirOfFile :: "string \<Rightarrow> string" where
  "dirOfFile path = rev (drop 1 (dropWhile (\<lambda>c. c \<noteq> CHR ''/'') (rev path)))"

definition unix_env :: os_env where
  "unix_env = \<lparr>flatpakBuild = False, isWindows = False, applicationDirPath = ''/usr/bin'',
     findExecutable = (\<lambda>name. if name = ''gzdoom'' then ''/usr/bin/gzdoom'' else []),
     getAbsolutePath = (\<lambda>path. if take 1 path = ''/'' then path else ''/home/user/'' @ path),
     getAbsoluteDirOfFile = dirOfFile\<rparr>"

definition flatpak_env :: os_env where
  "flatpak_env = unix_env\<lparr>flatpakBuild := True, applicationDirPath := ''/app/bin''\<rparr>"

definition abs_context :: PathContext where
  "abs_context = \<lparr>useAbsolutePaths = True,
     toAbsolute = (\<lambda>path. if take 1 path = ''/'' then path else ''/home/user/'' @ path),
     toRelative = (\<lambda>path. path)\<rparr>"


definition rel_context :: PathContext where
  "rel_context = abs_context\<lparr>useAbsolutePaths := False\<rparr>"

definition flatpak_gzdoom :: string where
  "flatpak_gzdoom = ''/var/lib/flatpak/app/org.example.App/current/active/files/bin/gzdoom''"

text \<open>
  To state the results: the command as one list of tokens, the executable first, and the
  tokens that a launcher built as Flatpak puts in front to leave its own sandbox.
\<close>

definition commandLine :: "ShellCommand \<Rightarrow> string list" where
  "commandLine cmd = executable cmd # arguments cmd"

definition hostEscape :: "os_env \<Rightarrow> string list" where
  "hostEscape env = (if flatpakBuild env then [''flatpak-spawn'', ''--host''] else [])"


section \<open>Properties of the argument tokenizer\<close>

lemmas split_defs =
  splitCommandLineArguments_def split_scan_def split_finish_def split_init_def split_step_def

lemma split_scan_snoc: "split_scan (p @ [c]) = split_step (split_scan p) c"
  by (simp add: split_scan_def)

lemma split_scan_snoc2:
  "split_scan (p @ [c, d]) = split_step (split_step (split_scan p) c) d"
  by (simp add: split_scan_def)

lemma split_step_escape:
  assumes "\<not> escaped st"
  shows "split_step (split_step st bslash) c = st\<lparr>currentArg := currentArg st @ [c]\<rparr>"
  using assms by (cases st) (simp add: split_step_def)

lemma split_step_space_outside:
  assumes "\<not> escaped st" and "\<not> inQuotes st"
  shows "split_step st space =
     (if currentArg st \<noteq> []
      then st\<lparr>args := args st @ [\<lparr>str = currentArg st, wasQuoted = False\<rparr>], currentArg := []\<rparr>
      else st)"
  using assms by (simp add: split_step_def)

lemma split_step_space_inside:
  assumes "\<not> escaped st" and "inQuotes st"
  shows "split_step st space = st\<lparr>currentArg := currentArg st @ [space]\<rparr>"
  using assms by (simp add: split_step_def)

lemma split_step_dquote:
  assumes "\<not> escaped st"
  shows "inQuotes (split_step st dquote) = (\<not> inQuotes st)"
    and "currentArg (split_step st dquote) = []"
    and "inQuotes st \<Longrightarrow>
           args (split_step st dquote) = args st @ [\<lparr>str = currentArg st, wasQuoted = True\<rparr>]"
  using assms by (simp_all add: split_step_def)

lemma split_step_dquote_outside:
  assumes "\<not> escaped st" and "\<not> inQuotes st"
  shows "split_step st dquote =
     (if currentArg st \<noteq> []
      then st\<lparr>inQuotes := True,
              args := args st @ [\<lparr>str = currentArg st, wasQuoted = False\<rparr>],
              currentArg := []\<rparr>
      else st\<lparr>inQuotes := True\<rparr>)"
  using assms by (simp add: split_step_def)

lemma split_step_dquote_inside:
  assumes "\<not> escaped st" and "inQuotes st"
  shows "split_step st dquote =
     st\<lparr>inQuotes := False,
        args := args st @ [\<lparr>str = currentArg st, wasQuoted = True\<rparr>],
        currentArg := []\<rparr>"
  using assms by (simp add: split_step_def)

text \<open>
  C3. Outside quotes an unescaped space ends the pending token (when there is one) and
  is dropped; inside quotes it is kept. An unescaped double quote toggles the quote mode
  and leaves no pending text: an opening quote ends the token pending before it, which is
  emitted as not quoted (nothing is emitted when none is pending), and a closing quote
  emits the text between the quotes as a quoted token. A backslash followed by a double
  quote inside quotes adds a literal double quote. On the example
  \<open>foo "bar baz" qux\"x\<close> the tokens are \<open>foo\<close> (not quoted), \<open>bar baz\<close>
  (quoted) and \<open>qux"x\<close> (not quoted): the escaped double quote is kept, the third
  token is not \<open>quxx\<close>. On \<open>-file"my mod.wad"\<close> they are \<open>-file\<close> (not quoted)
  and \<open>my mod.wad\<close> (quoted).
\<close>

theorem tokenizer_rules:
  "(\<not> escaped (split_scan p) \<and> \<not> inQuotes (split_scan p) \<longrightarrow>
      split_scan (p @ [space]) =
        (if currentArg (split_scan p) \<noteq> []
         then (split_scan p)\<lparr>args := args (split_scan p)
                  @ [\<lparr>str = currentArg (split_scan p), wasQuoted = False\<rparr>], currentArg := []\<rparr>
         else split_scan p))
   \<and> (\<not> escaped (split_scan p) \<and> inQuotes (split_scan p) \<longrightarrow>
      split_scan (p @ [space]) = (split_scan p)\<lparr>currentArg := currentArg (split_scan p) @ [space]\<rparr>)
   \<and> (\<not> escaped (split_scan p) \<longrightarrow>
      inQuotes (split_scan (p @ [dquote])) = (\<not> inQuotes (split_scan p))
      \<and> currentArg (split_scan (p @ [dquote])) = [])
   \<and> (\<not> escaped (split_scan p) \<and> inQuotes (split_scan p) \<longrightarrow>
      args (split_scan (p @ [dquote])) =
        args (split_scan p) @ [\<lparr>str = currentArg (split_scan p), wasQuoted = True\<rparr>])
   \<and> (\<not> escaped (split_scan p) \<and> inQuotes (split_scan p) \<longrightarrow>
      split_scan (p @ [dquote]) =
        (split_scan p)\<lparr>inQuotes := False,
           args := args (split_scan p) @ [\<lparr>str = currentArg (split_scan p), wasQuoted = True\<rparr>],
           currentArg := []\<rparr>)
   \<and> (\<not> escaped (split_scan p) \<and> \<not> inQuotes (split_scan p) \<longrightarrow>
      split_scan (p @ [dquote]) =
        (if currentArg (split_scan p) \<noteq> []
         then (split_scan p)\<lparr>inQuotes := True,
                 args := args (split_scan p)
                   @ [\<lparr>str = currentArg (split_scan p), wasQuoted = False\<rparr>],
                 currentArg := []\<rparr>
         else (split_scan p)\<lparr>inQuotes := True\<rparr>))
   \<and> (\<not> escaped (split_scan p) \<and> inQuotes (split_scan p) \<longrightarrow>
      split_scan (p @ [bslash, dquote]) =
        (split_scan p)\<lparr>currentArg := currentArg (split_scan p) @ [dquote]\<rparr>)
   \<and> splitCommandLineArguments example_args =
       [\<lparr>str = ''foo'', wasQuoted = False\<rparr>,
        \<lparr>str = ''bar baz'', wasQuoted = True\<rparr>,
        \<lparr>str = ''qux'' @ [dquote] @ ''x'', wasQuoted = False\<rparr>]
   \<and> splitCommandLineArguments example_file_arg =
       [\<lparr>str = ''-file'', wasQuoted = False\<rparr>, \<lparr>str = ''my mod.wad'', wasQuoted = True\<rparr>]"
proof -
  have ex: "splitCommandLineArguments example_args =
       [\<lparr>str = ''foo'', wasQuoted = False\<rparr>,
        \<lparr>str = ''bar baz'', wasQuoted = True\<rparr>,
        \<lparr>str = ''qux'' @ [dquote] @ ''x'', wasQuoted = False\<rparr>]"
    by (simp add: example_args_def split_defs)
  have ex2: "splitCommandLineArguments example_file_arg =
       [\<lparr>str = ''-file'', wasQuoted = False\<rparr>, \<lparr>str = ''my mod.wad'', wasQuoted = True\<rparr>]"
    by (simp add: example_file_arg_def split_defs)
  have q1: "\<not> escaped (split_scan p) \<and> inQuotes (split_scan p) \<longrightarrow>
      split_scan (p @ [dquote]) =
        (split_scan p)\<lparr>inQuotes := False,
           args := args (split_scan p) @ [\<lparr>str = currentArg (split_scan p), wasQuoted = True\<rparr>],
           currentArg := []\<rparr>"
    by (simp add: split_scan_snoc split_step_dquote_inside)
  have q2: "\<not> escaped (split_scan p) \<and> \<not> inQuotes (split_scan p) \<longrightarrow>
      split_scan (p @ [dquote]) =
        (if currentArg (split_scan p) \<noteq> []
         then (split_scan p)\<lparr>inQuotes := True,
                 args := args (split_scan p)
                   @ [\<lparr>str = currentArg (split_scan p), wasQuoted = False\<rparr>],
                 currentArg := []\<rparr>
         else (split_scan p)\<lparr>inQuotes := True\<rparr>)"
    by (simp add: split_scan_snoc split_step_dquote_outside)
  have rest: "(\<not> escaped (split_scan p) \<and> \<not> inQuotes (split_scan p) \<longrightarrow>
      split_scan (p @ [space]) =
        (if currentArg (split_scan p) \<noteq> []
         then (split_scan p)\<lparr>args := args (split_scan p)
                  @ [\<lparr>str = currentArg (split_scan p), wasQuoted = False\<rparr>], currentArg := []\<rparr>
         else split_scan p))
   \<and> (\<not> escaped (split_scan p) \<and> inQuotes (split_scan p) \<longrightarrow>
      split_scan (p @ [space]) = (split_scan p)\<lparr>currentArg := currentArg (split_scan p) @ [space]\<rparr>)
   \<and> (\<not> escaped (split_scan p) \<longrightarrow>
      inQuotes (split_scan (p @ [dquote])) = (\<not> inQuotes (split_scan p))
      \<and> currentArg (split_scan (p @ [dquote])) = [])
   \<and> (\<not> escaped (split_scan p) \<and> inQuotes (split_scan p) \<longrightarrow>
      args (split_scan (p @ [dquote])) =
        args (split_scan p) @ [\<lparr>str = currentArg (split_scan p), wasQuoted = True\<rparr>])
   \<and> (\<not> escaped (split_scan p) \<and> inQuotes (split_scan p) \<longrightarrow>
      split_scan (p @ [bslash, dquote]) =
        (split_scan p)\<lparr>currentArg := currentArg (split_scan p) @ [dquote]\<rparr>)"
    by (simp add: split_scan_snoc split_scan_snoc2 split_step_escape split_step_space_outside
        split_step_space_inside split_step_dquote)
  show ?thesis
    using ex ex2 q1 q2 rest by blast
qed

theorem tokenizer_rules_witness:
  "\<not> escaped (split_scan [dquote, CHR ''a'']) \<and> inQuotes (split_scan [dquote, CHR ''a''])
   \<and> split_scan ([dquote, CHR ''a''] @ [space]) =
        (split_scan [dquote, CHR ''a''])\<lparr>currentArg := ''a ''\<rparr>
   \<and> split_scan ([dquote, CHR ''a''] @ [bslash, dquote]) =
        (split_scan [dquote, CHR ''a''])\<lparr>currentArg := [CHR ''a'', dquote]\<rparr>
   \<and> args (split_scan ([dquote, CHR ''a''] @ [dquote])) = [\<lparr>str = ''a'', wasQuoted = True\<rparr>]
   \<and> \<not> inQuotes (split_scan ([dquote, CHR ''a''] @ [dquote]))
   \<and> \<not> escaped (split_scan ''a'') \<and> \<not> inQuotes (split_scan ''a'')
   \<and> args (split_scan (''a'' @ [space])) = [\<lparr>str = ''a'', wasQuoted = False\<rparr>]
   \<and> args (split_scan (''a'' @ [dquote])) = [\<lparr>str = ''a'', wasQuoted = False\<rparr>]
   \<and> inQuotes (split_scan (''a'' @ [dquote]))
   \<and> currentArg (split_scan (''a'' @ [dquote])) = []"
proof -
  have h: "\<not> escaped (split_scan [dquote, CHR ''a'']) \<and> inQuotes (split_scan [dquote, CHR ''a''])"
    by (simp add: split_defs)
  have c: "currentArg (split_scan [dquote, CHR ''a'']) = ''a''"
    "args (split_scan [dquote, CHR ''a'']) = []"
    by (simp_all add: split_defs)
  have h': "\<not> escaped (split_scan ''a'') \<and> \<not> inQuotes (split_scan ''a'')"
    by (simp add: split_defs)
  have c': "currentArg (split_scan ''a'') = ''a''" "args (split_scan ''a'') = []"
    by (simp_all add: split_defs)
  show ?thesis
    using h c h' c' tokenizer_rules [of "[dquote, CHR ''a'']"] tokenizer_rules [of "''a''"]
    by simp
qed

text \<open>
  C3, as stated, fails on the example: the third token of \<open>foo "bar baz" qux\"x\<close> is
  not \<open>quxx\<close>.
\<close>

theorem third_token_counterexample:
  "str (splitCommandLineArguments example_args ! 2) \<noteq> ''quxx''"
  by (simp add: example_args_def split_defs)

text \<open>What one step adds to the tokens, and how a step reaches quote mode with no pending text.\<close>

lemma split_step_args:
  "args (split_step st c) = args st
   \<or> (args (split_step st c) = args st @ [\<lparr>str = currentArg st, wasQuoted = False\<rparr>]
        \<and> currentArg st \<noteq> [])
   \<or> (args (split_step st c) = args st @ [\<lparr>str = currentArg st, wasQuoted = True\<rparr>]
        \<and> c = dquote \<and> inQuotes st \<and> \<not> escaped st)"
  by (simp add: split_step_def)

lemma split_step_fresh_quote:
  assumes "inQuotes (split_step st c)" and "\<not> escaped (split_step st c)"
    and "currentArg (split_step st c) = []"
  shows "c = dquote \<and> \<not> escaped st \<and> \<not> inQuotes st"
  using assms by (simp add: split_step_def split: if_splits)


lemma empty_token_invariant:
  "(\<forall>a \<in> set (args (split_scan p)). str a = [] \<longrightarrow>
       wasQuoted a
       \<and> (\<exists>u v. p = u @ [dquote, dquote] @ v
              \<and> \<not> escaped (split_scan u) \<and> \<not> inQuotes (split_scan u)))
   \<and> (inQuotes (split_scan p) \<and> \<not> escaped (split_scan p) \<and> currentArg (split_scan p) = [] \<longrightarrow>
       (\<exists>u. p = u @ [dquote] \<and> \<not> escaped (split_scan u) \<and> \<not> inQuotes (split_scan u)))"
proof (induction p rule: rev_induct)
  case Nil
  show ?case by (simp add: split_scan_def split_init_def)
next
  case (snoc c p)
  define st where "st = split_scan p"
  have scan: "split_scan (p @ [c]) = split_step st c"
    by (simp add: split_scan_snoc st_def)
  have old: "\<And>a. a \<in> set (args st) \<Longrightarrow> str a = [] \<Longrightarrow>
       wasQuoted a
       \<and> (\<exists>u v. p @ [c] = u @ [dquote, dquote] @ v
              \<and> \<not> escaped (split_scan u) \<and> \<not> inQuotes (split_scan u))"
  proof -
    fix a assume "a \<in> set (args st)" "str a = []"
    then obtain u v where "wasQuoted a" "p = u @ [dquote, dquote] @ v"
      "\<not> escaped (split_scan u)" "\<not> inQuotes (split_scan u)"
      using snoc.IH unfolding st_def by blast
    then have "wasQuoted a" "p @ [c] = u @ [dquote, dquote] @ (v @ [c])"
      "\<not> escaped (split_scan u)" "\<not> inQuotes (split_scan u)"
      by simp_all
    then show "wasQuoted a
       \<and> (\<exists>u v. p @ [c] = u @ [dquote, dquote] @ v
              \<and> \<not> escaped (split_scan u) \<and> \<not> inQuotes (split_scan u))"
      by blast
  qed
  have new: "wasQuoted a
       \<and> (\<exists>u v. p @ [c] = u @ [dquote, dquote] @ v
              \<and> \<not> escaped (split_scan u) \<and> \<not> inQuotes (split_scan u))"
    if a: "a \<in> set (args (split_step st c))" "str a = []" for a
  proof -
    consider "a \<in> set (args st)"
      | "a = \<lparr>str = currentArg st, wasQuoted = False\<rparr>" "currentArg st \<noteq> []"
      | "a = \<lparr>str = currentArg st, wasQuoted = True\<rparr>" "c = dquote" "inQuotes st" "\<not> escaped st"
      using split_step_args [of st c] a(1) by auto
    then show ?thesis
    proof cases
      case 1
      then show ?thesis using old a(2) by blast
    next
      case 2
      then show ?thesis using a(2) by simp
    next
      case 3
      then have "currentArg st = []" using a(2) by simp
      then obtain u where u: "p = u @ [dquote]" "\<not> escaped (split_scan u)" "\<not> inQuotes (split_scan u)"
        using snoc.IH 3(3,4) unfolding st_def by blast
      have "p @ [c] = u @ [dquote, dquote] @ []" using u(1) 3(2) by simp
      then show ?thesis using 3(1) u(2,3) by (metis Argument.select_convs(2))
    qed
  qed
  have fresh: "\<exists>u. p @ [c] = u @ [dquote] \<and> \<not> escaped (split_scan u) \<and> \<not> inQuotes (split_scan u)"
    if "inQuotes (split_step st c)" "\<not> escaped (split_step st c)" "currentArg (split_step st c) = []"
    using split_step_fresh_quote [OF that] unfolding st_def by blast
  show ?case
    unfolding scan using new fresh by blast
qed


lemma args_kept_step: "set (args st) \<subseteq> set (args (split_step st c))"
  using split_step_args [of st c] by auto

lemma args_kept_foldl: "set (args st) \<subseteq> set (args (foldl split_step st q))"
proof (induction q arbitrary: st)
  case Nil
  show ?case by simp
next
  case (Cons c q)
  show ?case using args_kept_step [of st c] Cons.IH [of "split_step st c"] by auto
qed

lemma args_kept_finish: "set (args st) \<subseteq> set (split_finish s st)"
  by (auto simp: split_finish_def)

lemma empty_quotes_emitted:
  assumes "\<not> escaped (split_scan u)" and "\<not> inQuotes (split_scan u)"
  shows "\<lparr>str = [], wasQuoted = True\<rparr> \<in> set (splitCommandLineArguments (u @ [dquote, dquote] @ v))"
proof -
  define st where "st = split_step (split_scan u) dquote"
  have st: "\<not> escaped st" "inQuotes st" "currentArg st = []"
    using assms by (simp_all add: st_def split_step_dquote_outside)
  have "args (split_step st dquote) = args st @ [\<lparr>str = [], wasQuoted = True\<rparr>]"
    using split_step_dquote(3) [OF st(1,2)] st(3) by simp
  then have "\<lparr>str = [], wasQuoted = True\<rparr> \<in> set (args (split_step st dquote))"
    by simp
  moreover have "split_scan (u @ [dquote, dquote] @ v) = foldl split_step (split_step st dquote) v"
    by (simp add: split_scan_def st_def)
  ultimately have "\<lparr>str = [], wasQuoted = True\<rparr> \<in> set (args (split_scan (u @ [dquote, dquote] @ v)))"
    using args_kept_foldl [of "split_step st dquote" v] by auto
  then show ?thesis
    using args_kept_finish unfolding splitCommandLineArguments_def by blast
qed

text \<open>
  C8. Every token that is not flagged as quoted has a text that is not empty. A token
  with an empty text is flagged as quoted, and the input then has a closing quote right
  after its opening quote: two adjacent double quotes, the first of them met outside
  quotes and not escaped. Every such pair of quotes gives a token with an empty text.
\<close>

theorem unquoted_token_nonempty:
  "(a \<in> set (splitCommandLineArguments s) \<longrightarrow>
      (\<not> wasQuoted a \<longrightarrow> str a \<noteq> [])
      \<and> (str a = [] \<longrightarrow>
           wasQuoted a
           \<and> (\<exists>u v. s = u @ [dquote, dquote] @ v
                  \<and> \<not> escaped (split_scan u) \<and> \<not> inQuotes (split_scan u))))
   \<and> (\<not> escaped (split_scan u) \<and> \<not> inQuotes (split_scan u) \<longrightarrow>
        \<lparr>str = [], wasQuoted = True\<rparr> \<in> set (splitCommandLineArguments (u @ [dquote, dquote] @ v)))"
proof -
  have "(\<not> wasQuoted a \<longrightarrow> str a \<noteq> [])
      \<and> (str a = [] \<longrightarrow>
           (\<exists>u v. s = u @ [dquote, dquote] @ v
              \<and> \<not> escaped (split_scan u) \<and> \<not> inQuotes (split_scan u)))"
    if a: "a \<in> set (splitCommandLineArguments s)"
  proof (cases "a \<in> set (args (split_scan s))")
    case True
    then show ?thesis using empty_token_invariant [of s] by blast
  next
    case False
    then have "a = \<lparr>str = currentArg (split_scan s),
                    wasQuoted = (inQuotes (split_scan s) \<and> last s \<noteq> dquote)\<rparr>"
      and "currentArg (split_scan s) \<noteq> []"
      using a by (auto simp: splitCommandLineArguments_def split_finish_def split: if_splits)
    then show ?thesis by simp
  qed
  then show ?thesis using empty_quotes_emitted by blast
qed

theorem unquoted_token_nonempty_witness:
  "\<lparr>str = ''a'', wasQuoted = False\<rparr> \<in> set (splitCommandLineArguments (''a '' @ [dquote, dquote]))
   \<and> \<not> wasQuoted \<lparr>str = ''a'', wasQuoted = False\<rparr>
   \<and> str \<lparr>str = ''a'', wasQuoted = False\<rparr> \<noteq> []
   \<and> \<lparr>str = [], wasQuoted = True\<rparr> \<in> set (splitCommandLineArguments (''a '' @ [dquote, dquote]))
   \<and> str \<lparr>str = [], wasQuoted = True\<rparr> = []
   \<and> (\<exists>u v. ''a '' @ [dquote, dquote] = u @ [dquote, dquote] @ v
          \<and> \<not> escaped (split_scan u) \<and> \<not> inQuotes (split_scan u))
   \<and> \<not> escaped (split_scan ''a '') \<and> \<not> inQuotes (split_scan ''a '')
   \<and> \<lparr>str = [], wasQuoted = True\<rparr>
        \<in> set (splitCommandLineArguments (''a '' @ [dquote, dquote] @ ''b''))"
proof -
  have h1: "\<lparr>str = ''a'', wasQuoted = False\<rparr>
             \<in> set (splitCommandLineArguments (''a '' @ [dquote, dquote]))"
    by (simp add: split_defs)
  have h2: "\<lparr>str = [], wasQuoted = True\<rparr>
             \<in> set (splitCommandLineArguments (''a '' @ [dquote, dquote]))"
    by (simp add: split_defs)
  have h3: "\<not> escaped (split_scan ''a '') \<and> \<not> inQuotes (split_scan ''a '')"
    by (simp add: split_defs)
  have c1: "str \<lparr>str = ''a'', wasQuoted = False\<rparr> \<noteq> []"
    using h1 unquoted_token_nonempty [where a = "\<lparr>str = ''a'', wasQuoted = False\<rparr>"
        and s = "''a '' @ [dquote, dquote]"]
    by simp
  have c2: "\<exists>u v. ''a '' @ [dquote, dquote] = u @ [dquote, dquote] @ v
          \<and> \<not> escaped (split_scan u) \<and> \<not> inQuotes (split_scan u)"
    using h2 unquoted_token_nonempty [where a = "\<lparr>str = [], wasQuoted = True\<rparr>"
        and s = "''a '' @ [dquote, dquote]"]
    by simp
  have c3: "\<lparr>str = [], wasQuoted = True\<rparr>
        \<in> set (splitCommandLineArguments (''a '' @ [dquote, dquote] @ ''b''))"
    using h3 unquoted_token_nonempty [where u = "''a ''" and v = "''b''"] by blast
  show ?thesis
    using h1 h2 h3 c1 c2 c3 by simp
qed

text \<open>C8, as stated, fails: the input \<open>""\<close> gives one token, with an empty text.\<close>

theorem empty_token_counterexample:
  "splitCommandLineArguments [dquote, dquote] = [\<lparr>str = [], wasQuoted = True\<rparr>]"
  by (simp add: split_defs)

lemma scan_quoted_body:
  assumes "\<not> escaped st" and "inQuotes st" and "dquote \<notin> set body" and "bslash \<notin> set body"
  shows "foldl split_step st body = st\<lparr>currentArg := currentArg st @ body\<rparr>"
  using assms
proof (induction body arbitrary: st)
  case Nil
  then show ?case by simp
next
  case (Cons c body)
  have c: "c \<noteq> dquote" "c \<noteq> bslash"
    using Cons.prems(3,4) by auto
  have step: "split_step st c = st\<lparr>currentArg := currentArg st @ [c]\<rparr>"
    using Cons.prems(1,2) c by (simp add: split_step_def)
  have "foldl split_step (st\<lparr>currentArg := currentArg st @ [c]\<rparr>) body
      = (st\<lparr>currentArg := currentArg st @ [c]\<rparr>)\<lparr>currentArg :=
          currentArg (st\<lparr>currentArg := currentArg st @ [c]\<rparr>) @ body\<rparr>"
    by (rule Cons.IH) (use Cons.prems in simp_all)
  then show ?case by (simp add: step)
qed

lemma open_quote_body:
  assumes "\<not> escaped (split_scan p)" and "\<not> inQuotes (split_scan p)"
    and "dquote \<notin> set body" and "bslash \<notin> set body"
  shows "inQuotes (split_scan (p @ [dquote] @ body))"
    and "currentArg (split_scan (p @ [dquote] @ body)) = body"
proof -
  define st where "st = split_step (split_scan p) dquote"
  have st: "\<not> escaped st" "inQuotes st" "currentArg st = []"
    using assms(1,2) by (simp_all add: st_def split_step_def)
  have "split_scan (p @ [dquote] @ body) = foldl split_step st body"
    by (simp add: split_scan_def st_def)
  also have "\<dots> = st\<lparr>currentArg := currentArg st @ body\<rparr>"
    by (rule scan_quoted_body [OF st(1,2) assms(3,4)])
  finally have eq: "split_scan (p @ [dquote] @ body) = st\<lparr>currentArg := body\<rparr>"
    by (simp add: st(3))
  show "inQuotes (split_scan (p @ [dquote] @ body))" unfolding eq by (simp add: st(2))
  show "currentArg (split_scan (p @ [dquote] @ body)) = body" unfolding eq by simp
qed

text \<open>
  C9. When the input ends in quote mode with pending text and its last character is not
  a double quote, the last token is the pending text, flagged as quoted. When it ends in
  quote mode with no pending text, no token is emitted for the open quote. In particular,
  an opening quote followed to the end of the input by text without double quotes and
  backslashes gives that text as the last token, flagged as quoted.
\<close>

theorem unterminated_quote_flag:
  "(inQuotes (split_scan s) \<and> currentArg (split_scan s) \<noteq> [] \<and> last s \<noteq> dquote \<longrightarrow>
      splitCommandLineArguments s \<noteq> []
      \<and> last (splitCommandLineArguments s) = \<lparr>str = currentArg (split_scan s), wasQuoted = True\<rparr>)
   \<and> (inQuotes (split_scan s) \<and> currentArg (split_scan s) = [] \<longrightarrow>
      splitCommandLineArguments s = args (split_scan s))
   \<and> (\<not> escaped (split_scan p) \<and> \<not> inQuotes (split_scan p)
       \<and> body \<noteq> [] \<and> dquote \<notin> set body \<and> bslash \<notin> set body \<longrightarrow>
      inQuotes (split_scan (p @ [dquote] @ body))
      \<and> last (splitCommandLineArguments (p @ [dquote] @ body)) = \<lparr>str = body, wasQuoted = True\<rparr>)"
proof -
  have "last (splitCommandLineArguments (p @ [dquote] @ body)) = \<lparr>str = body, wasQuoted = True\<rparr>"
    if "\<not> escaped (split_scan p)" "\<not> inQuotes (split_scan p)"
      "body \<noteq> []" "dquote \<notin> set body" "bslash \<notin> set body"
  proof -
    have "last (p @ [dquote] @ body) = last body" using that(3) by simp
    moreover have "last body \<in> set body" using that(3) by simp
    ultimately have "last (p @ [dquote] @ body) \<noteq> dquote" using that(4) by metis
    then show ?thesis
      using open_quote_body [OF that(1,2,4,5)] that(3)
      by (simp add: splitCommandLineArguments_def split_finish_def)
  qed
  then show ?thesis
    using open_quote_body(1)
    by (simp add: splitCommandLineArguments_def split_finish_def)
qed

theorem unterminated_quote_flag_witness:
  "inQuotes (split_scan ([dquote] @ ''a b'')) \<and> currentArg (split_scan ([dquote] @ ''a b'')) \<noteq> []
   \<and> last ([dquote] @ ''a b'') \<noteq> dquote
   \<and> last (splitCommandLineArguments ([dquote] @ ''a b'')) = \<lparr>str = ''a b'', wasQuoted = True\<rparr>
   \<and> inQuotes (split_scan (''a '' @ [dquote])) \<and> currentArg (split_scan (''a '' @ [dquote])) = []
   \<and> splitCommandLineArguments (''a '' @ [dquote]) = [\<lparr>str = ''a'', wasQuoted = False\<rparr>]
   \<and> \<not> escaped (split_scan ''x '') \<and> \<not> inQuotes (split_scan ''x '')
   \<and> last (splitCommandLineArguments (''x '' @ [dquote] @ ''a b'')) = \<lparr>str = ''a b'', wasQuoted = True\<rparr>"
proof -
  have h1: "inQuotes (split_scan ([dquote] @ ''a b''))
            \<and> currentArg (split_scan ([dquote] @ ''a b'')) = ''a b''
            \<and> last ([dquote] @ ''a b'') \<noteq> dquote"
    by (simp add: split_defs)
  have h2: "inQuotes (split_scan (''a '' @ [dquote]))
            \<and> currentArg (split_scan (''a '' @ [dquote])) = []
            \<and> args (split_scan (''a '' @ [dquote])) = [\<lparr>str = ''a'', wasQuoted = False\<rparr>]"
    by (simp add: split_defs)
  have h3: "\<not> escaped (split_scan ''x '') \<and> \<not> inQuotes (split_scan ''x '')"
    by (simp add: split_defs)
  have h4: "''a b'' \<noteq> [] \<and> dquote \<notin> set ''a b'' \<and> bslash \<notin> set ''a b''"
    by simp
  have c1: "last (splitCommandLineArguments ([dquote] @ ''a b'')) = \<lparr>str = ''a b'', wasQuoted = True\<rparr>"
    using h1 unterminated_quote_flag [where s = "[dquote] @ ''a b''"] by simp
  have c2: "splitCommandLineArguments (''a '' @ [dquote]) = [\<lparr>str = ''a'', wasQuoted = False\<rparr>]"
    using h2 unterminated_quote_flag [where s = "''a '' @ [dquote]"] by simp
  have c3: "last (splitCommandLineArguments (''x '' @ [dquote] @ ''a b'')) = \<lparr>str = ''a b'', wasQuoted = True\<rparr>"
    using h3 h4 unterminated_quote_flag [where p = "''x ''" and body = "''a b''"] by blast
  show ?thesis
    using h1 h2 h3 c1 c2 c3 by simp
qed

text \<open>
  C9, as stated, fails: \<open>abc "\<close> ends in quote mode, and its last (and only) token is
  \<open>abc\<close>, not flagged as quoted.
\<close>

theorem unterminated_quote_counterexample:
  "inQuotes (split_scan (''abc '' @ [dquote]))
   \<and> splitCommandLineArguments (''abc '' @ [dquote]) = [\<lparr>str = ''abc'', wasQuoted = False\<rparr>]"
  by (simp add: split_defs)

text \<open>
  C10. Outside quotes, a backslash that is not itself escaped escapes the next character:
  the character is added to the pending token as it is, and nothing else changes (no
  token is emitted, the quote mode is not entered). So \<open>a\ b\<close> is the one token
  \<open>a b\<close>, and \<open>\"\<close> is the one token \<open>"\<close>, outside quote mode.
\<close>

theorem backslash_escapes_outside_quotes:
  "(\<not> escaped (split_scan p) \<and> \<not> inQuotes (split_scan p) \<longrightarrow>
      split_scan (p @ [bslash, c]) = (split_scan p)\<lparr>currentArg := currentArg (split_scan p) @ [c]\<rparr>)
   \<and> splitCommandLineArguments (''a'' @ [bslash] @ '' b'') = [\<lparr>str = ''a b'', wasQuoted = False\<rparr>]
   \<and> splitCommandLineArguments [bslash, dquote] = [\<lparr>str = [dquote], wasQuoted = False\<rparr>]
   \<and> \<not> inQuotes (split_scan [bslash, dquote])"
proof -
  have "splitCommandLineArguments (''a'' @ [bslash] @ '' b'') = [\<lparr>str = ''a b'', wasQuoted = False\<rparr>]"
    by (simp add: split_defs)
  moreover have "splitCommandLineArguments [bslash, dquote] = [\<lparr>str = [dquote], wasQuoted = False\<rparr>]"
    by (simp add: split_defs)
  moreover have "\<not> inQuotes (split_scan [bslash, dquote])"
    by (simp add: split_defs)
  ultimately show ?thesis
    by (simp add: split_scan_snoc2 split_step_escape)
qed

theorem backslash_escapes_outside_quotes_witness:
  "\<not> escaped (split_scan ''a'') \<and> \<not> inQuotes (split_scan ''a'')
   \<and> split_scan (''a'' @ [bslash, space]) = (split_scan ''a'')\<lparr>currentArg := ''a ''\<rparr>"
proof -
  have h: "\<not> escaped (split_scan ''a'') \<and> \<not> inQuotes (split_scan ''a'')"
    by (simp add: split_defs)
  have c: "currentArg (split_scan ''a'') = ''a''" by (simp add: split_defs)
  show ?thesis using h c backslash_escapes_outside_quotes [of "''a''" space] by simp
qed

section \<open>Properties of the list operations\<close>

subsection \<open>Moving the selected item up and down\<close>

lemma nat_one_plus_int: "nat (1 + int n) = Suc n"
  by simp

lemma move_up_decomp:
  "move (int (Suc (length as))) (int (length as)) (as @ a # b # bs) = as @ b # a # bs"
  by (simp add: move_def removeAt_def nat_one_plus_int nth_append)

lemma move_down_decomp:
  "move (int (length as)) (int (Suc (length as))) (as @ a # b # bs) = as @ b # a # bs"
  by (simp add: move_def removeAt_def nat_one_plus_int nth_append)

lemma move_down_decomp':
  "move (int (length as)) (int (length as) + 1) (as @ a # b # bs) = as @ b # a # bs"
  using move_down_decomp [of as a b bs] by (simp add: add.commute)

lemma adjacent_decomp:
  assumes "Suc k < length xs"
  obtains as a b bs where "xs = as @ a # b # bs" and "length as = k"
proof -
  have "xs = take k xs @ xs ! k # xs ! Suc k # drop (Suc (Suc k)) xs"
    using assms by (simp add: Cons_nth_drop_Suc Suc_lessD)
  moreover have "length (take k xs) = k" using assms by simp
  ultimately show ?thesis using that by blast
qed

lemma move_up_down_state:
  fixes as :: "'a list"
  assumes c: "1 \<le> c" "c < int (length (as @ a # b # bs))"
  defines "st \<equiv> \<lparr>items = as @ a # b # bs, selectedIndexes = [int (Suc (length as))], currentIndex = c\<rparr>"
  shows "moveUpSelectedItem st =
           (\<lparr>items = as @ b # a # bs, selectedIndexes = [int (length as)], currentIndex = c - 1\<rparr>,
            int (Suc (length as)))"
    and "moveDownSelectedItem
           \<lparr>items = as @ b # a # bs, selectedIndexes = [int (length as)], currentIndex = c - 1\<rparr>
         = (st, int (length as))"
proof -
  show "moveUpSelectedItem st =
           (\<lparr>items = as @ b # a # bs, selectedIndexes = [int (length as)], currentIndex = c - 1\<rparr>,
            int (Suc (length as)))"
    using c unfolding st_def moveUpSelectedItem_def
    by (simp add: getSelectedItemIndex_def getCurrentItemIndex_def unsetCurrentItem_def
        deselectItemByIndex_def selectAndSetCurrentByIndex_def selectItemByIndex_def
        setCurrentItemByIndex_def validIndex_def Let_def move_up_decomp [simplified])
  show "moveDownSelectedItem
           \<lparr>items = as @ b # a # bs, selectedIndexes = [int (length as)], currentIndex = c - 1\<rparr>
         = (st, int (length as))"
    using c unfolding st_def moveDownSelectedItem_def
    by (simp add: getSelectedItemIndex_def getCurrentItemIndex_def unsetCurrentItem_def
        deselectItemByIndex_def selectAndSetCurrentByIndex_def selectItemByIndex_def
        setCurrentItemByIndex_def validIndex_def Let_def move_down_decomp')
qed


text \<open>
  C7. When exactly one item is selected, it is not the first item, and the row of the
  current item is at least 1 (as it is when the selected item is the current one),
  \<open>moveUpSelectedItem\<close> moves the item one row up, and \<open>moveDownSelectedItem\<close> after
  it restores the order of the list, the selection and the current item.
\<close>

theorem move_up_down_roundtrip:
  assumes "selectedIndexes st = [s]" and "1 \<le> s" and "s < int (length (items st))"
    and "1 \<le> currentIndex st" and "currentIndex st < int (length (items st))"
  shows "selectedIndexes (fst (moveUpSelectedItem st)) = [s - 1]
     \<and> fst (moveDownSelectedItem (fst (moveUpSelectedItem st))) = st"
proof -
  have "Suc (nat s - 1) < length (items st)"
    using assms(2,3) by linarith
  then obtain as a b bs where xs: "items st = as @ a # b # bs" and k: "length as = nat s - 1"
    by (rule adjacent_decomp)
  have s: "s = int (Suc (length as))"
    using k assms(2) by simp
  have st: "st = \<lparr>items = as @ a # b # bs, selectedIndexes = [int (Suc (length as))],
                  currentIndex = currentIndex st\<rparr>"
    using xs s assms(1) by (cases st) simp
  have c: "1 \<le> currentIndex st" "currentIndex st < int (length (as @ a # b # bs))"
    using assms(4,5) xs by simp_all
  have up: "moveUpSelectedItem st =
      (\<lparr>items = as @ b # a # bs, selectedIndexes = [int (length as)],
        currentIndex = currentIndex st - 1\<rparr>, int (Suc (length as)))"
    using move_up_down_state(1) [OF c] st by simp
  have down: "moveDownSelectedItem
      \<lparr>items = as @ b # a # bs, selectedIndexes = [int (length as)],
        currentIndex = currentIndex st - 1\<rparr> = (st, int (length as))"
    using move_up_down_state(2) [OF c] st by simp
  show ?thesis
    using up down s by simp
qed

theorem move_up_down_roundtrip_witness:
  "selectedIndexes \<lparr>items = ''ABC'', selectedIndexes = [2], currentIndex = 2\<rparr> = [2]
   \<and> fst (moveDownSelectedItem (fst (moveUpSelectedItem
        \<lparr>items = ''ABC'', selectedIndexes = [2], currentIndex = 2\<rparr>)))
     = \<lparr>items = ''ABC'', selectedIndexes = [2], currentIndex = 2\<rparr>
   \<and> fst (moveUpSelectedItem \<lparr>items = ''ABC'', selectedIndexes = [2], currentIndex = 2\<rparr>)
     = \<lparr>items = ''ACB'', selectedIndexes = [1], currentIndex = 1\<rparr>"
proof -
  have up: "fst (moveUpSelectedItem \<lparr>items = ''ABC'', selectedIndexes = [2], currentIndex = 2\<rparr>)
     = \<lparr>items = ''ACB'', selectedIndexes = [1], currentIndex = 1\<rparr>"
    by (simp add: moveUpSelectedItem_def getSelectedItemIndex_def getCurrentItemIndex_def
        unsetCurrentItem_def deselectItemByIndex_def selectAndSetCurrentByIndex_def
        selectItemByIndex_def setCurrentItemByIndex_def validIndex_def Let_def move_def removeAt_def)
  show ?thesis
    using up move_up_down_roundtrip [of "\<lparr>items = ''ABC'', selectedIndexes = [2], currentIndex = 2\<rparr>" 2]
    by simp
qed

text \<open>
  C7, as stated, fails at the upper boundary: with the first item selected, moving up does
  nothing and moving down then moves the item, so \<open>[A, B]\<close> becomes \<open>[B, A]\<close>. It
  also fails for a current item in row 0 that is not the selected one: the current row
  ends at 1.
\<close>

theorem move_up_down_counterexample:
  "fst (moveDownSelectedItem (fst (moveUpSelectedItem
        \<lparr>items = ''AB'', selectedIndexes = [0], currentIndex = 0\<rparr>)))
     = \<lparr>items = ''BA'', selectedIndexes = [1], currentIndex = 1\<rparr>
   \<and> fst (moveDownSelectedItem (fst (moveUpSelectedItem
        \<lparr>items = ''ABC'', selectedIndexes = [2], currentIndex = 0\<rparr>)))
     = \<lparr>items = ''ABC'', selectedIndexes = [2], currentIndex = 1\<rparr>"
  by (simp add: moveUpSelectedItem_def moveDownSelectedItem_def getSelectedItemIndex_def
      getCurrentItemIndex_def unsetCurrentItem_def deselectItemByIndex_def
      selectAndSetCurrentByIndex_def selectItemByIndex_def setCurrentItemByIndex_def
      validIndex_def Let_def move_def removeAt_def)

subsection \<open>Deleting the selected items\<close>

lemma nths_cong_index:
  assumes "\<And>i. i < length xs \<Longrightarrow> i \<in> A \<longleftrightarrow> i \<in> B"
  shows "nths xs A = nths xs B"
proof -
  have "filter (\<lambda>p. snd p \<in> A) (zip xs [0..<length xs]) = filter (\<lambda>p. snd p \<in> B) (zip xs [0..<length xs])"
  proof (rule filter_cong [OF refl])
    fix p assume "p \<in> set (zip xs [0..<length xs])"
    then have "snd p \<in> set [0..<length xs]"
      by (metis prod.collapse set_zip_rightD)
    then show "(snd p \<in> A) = (snd p \<in> B)" using assms by simp
  qed
  then show ?thesis by (simp add: nths_def)
qed

lemma removeAt_valid:
  assumes "m < length xs"
  shows "removeAt (int m) xs = take m xs @ drop (Suc m) xs"
  using assms by (simp add: removeAt_def)

lemma nths_removeAt:
  assumes "m < length xs"
    and "\<And>j. j < m \<Longrightarrow> j \<in> A \<and> j \<in> B"
    and "m \<notin> B"
    and "\<And>j. m \<le> j \<Longrightarrow> j \<in> A \<longleftrightarrow> Suc j \<in> B"
  shows "nths (take m xs @ drop (Suc m) xs) A = nths xs B"
proof -
  have len: "length (take m xs) = m" using assms(1) by simp
  have xs: "xs = take m xs @ [xs ! m] @ drop (Suc m) xs"
    using assms(1) by (simp add: Cons_nth_drop_Suc)
  have l: "nths (take m xs) A = nths (take m xs) B"
    by (rule nths_cong_index) (use assms(2) len in simp)
  have r: "nths (drop (Suc m) xs) {j. j + m \<in> A} = nths (drop (Suc m) xs) {j. j + Suc m \<in> B}"
    by (rule nths_cong_index) (use assms(4) in simp)
  have "nths xs B = nths (take m xs) B @ nths ([xs ! m] @ drop (Suc m) xs) {j. j + m \<in> B}"
    by (subst xs, subst nths_append) (simp only: len)
  also have "nths ([xs ! m] @ drop (Suc m) xs) {j. j + m \<in> B}
      = nths (drop (Suc m) xs) {j. j + Suc m \<in> B}"
    using assms(3) by (simp add: nths_Cons)
  finally have "nths xs B = nths (take m xs) B @ nths (drop (Suc m) xs) {j. j + Suc m \<in> B}" .
  moreover have "nths (take m xs @ drop (Suc m) xs) A
      = nths (take m xs) A @ nths (drop (Suc m) xs) {j. j + m \<in> A}"
    by (subst nths_append) (simp only: len)
  ultimately show ?thesis using l r by simp
qed


text \<open>
  The loop with its running correction: when the rows still to delete are ascending and
  \<open>k\<close> rows below them are already gone, the loop deletes exactly those rows.
\<close>

lemma removeSelected_nths:
  assumes "sorted is" and "distinct is"
    and "\<forall>i \<in> set is. int k \<le> i \<and> i < int (length xs) + int k"
  shows "removeSelected is k xs = nths xs {j. int (j + k) \<notin> set is}
     \<and> length (removeSelected is k xs) = length xs - length is"
  using assms
proof (induction "is" arbitrary: k xs)
  case Nil
  then show ?case by (simp add: nths_all)
next
  case (Cons i rest)
  define m where "m = nat (i - int k)"
  have i: "i = int (m + k)" and m: "m < length xs"
    using Cons.prems(3) by (auto simp: m_def)
  have gt: "\<forall>r \<in> set rest. i < r"
    using Cons.prems(1,2) by (auto simp: less_le)
  define xs' where "xs' = take m xs @ drop (Suc m) xs"
  have step: "removeSelected (i # rest) k xs = removeSelected rest (Suc k) xs'"
    using m by (simp add: i removeAt_valid xs'_def)
  have len': "length xs' = length xs - 1" using m by (simp add: xs'_def)
  have pre: "\<forall>r \<in> set rest. int (Suc k) \<le> r \<and> r < int (length xs') + int (Suc k)"
    using gt Cons.prems(3) m i len' by auto
  have sd: "sorted rest" "distinct rest"
    using Cons.prems(1,2) by simp_all
  note IH = Cons.IH [OF sd pre]
  have eq: "nths xs' {j. int (j + Suc k) \<notin> set rest} = nths xs {j. int (j + k) \<notin> set (i # rest)}"
    unfolding xs'_def
  proof (rule nths_removeAt [OF m])
    fix j assume "j < m"
    then show "j \<in> {j. int (j + Suc k) \<notin> set rest} \<and> j \<in> {j. int (j + k) \<notin> set (i # rest)}"
      using gt i by auto
  next
    show "m \<notin> {j. int (j + k) \<notin> set (i # rest)}" using i by simp
  next
    fix j assume "m \<le> j"
    then show "(j \<in> {j. int (j + Suc k) \<notin> set rest}) = (Suc j \<in> {j. int (j + k) \<notin> set (i # rest)})"
      using i by (auto simp: add.assoc)
  qed
  have leq: "length xs' - length rest = length xs - length (i # rest)"
    using len' by simp
  have "removeSelected (i # rest) k xs = nths xs {j. int (j + k) \<notin> set (i # rest)}"
    using step IH [THEN conjunct1] eq by (simp only:)
  moreover have "length (removeSelected (i # rest) k xs) = length xs - length (i # rest)"
    using step IH [THEN conjunct2] leq by (simp only:)
  ultimately show ?case by (rule conjI)
qed


lemma selected_count_bound:
  assumes "distinct (sel :: int list)" and "\<forall>i \<in> set sel. first \<le> i \<and> i < int n"
    and "0 \<le> first" and "sel \<noteq> []"
  shows "nat first + length sel \<le> n"
proof -
  obtain i where "i \<in> set sel" using assms(4) by (cases sel) auto
  then have fn: "first < int n" using assms(2) by auto
  have "set sel \<subseteq> {first..<int n}" using assms(2) by auto
  then have "card (set sel) \<le> card {first..<int n}"
    by (intro card_mono) simp_all
  then have "length sel \<le> nat (int n - first)"
    using assms(1) by (simp add: distinct_card)
  then show ?thesis using assms(3) fn by linarith
qed

lemmas view_defs =
  getSelectedItemIndex_def getCurrentItemIndex_def getSelectedItemIndexes_def
  unsetCurrentItem_def deselectItemByIndex_def deselectSelectedItems_def
  deselectAllAndUnsetCurrent_def selectAndSetCurrentByIndex_def selectItemByIndex_def
  setCurrentItemByIndex_def validIndex_def

lemma deleteSelectedItems_example:
  "deleteSelectedItems \<lparr>items = ''ABCDE'', selectedIndexes = [3, 1], currentIndex = 3\<rparr>
     = (\<lparr>items = ''ACE'', selectedIndexes = [1], currentIndex = 1\<rparr>, [1, 3])"
  by (simp add: deleteSelectedItems_def view_defs removeAt_def Let_def)

lemma sort_facts:
  fixes sel :: "int list"
  assumes "sel \<noteq> []"
  shows "sort sel \<noteq> []" and "hd (sort sel) = Min (set sel)" and "hd (sort sel) \<in> set sel"
proof -
  show ne: "sort sel \<noteq> []"
    using assms by (metis length_sort length_0_conv)
  then obtain a as where a: "sort sel = a # as" by (cases "sort sel") auto
  have "sorted (a # as)" "set (a # as) = set sel"
    using a by (metis sorted_sort, metis set_sort)
  then have "a \<in> set sel" "\<forall>x \<in> set sel. a \<le> x" by auto
  then show "hd (sort sel) = Min (set sel)" "hd (sort sel) \<in> set sel"
    using a by (auto intro!: Min_eqI [symmetric])
qed


lemma deleteSelectedItems_unfold:
  assumes "selectedIndexes st \<noteq> []"
  shows "deleteSelectedItems st =
     (let first = hd (sort (selectedIndexes st));
          xs' = removeSelected (sort (selectedIndexes st)) 0 (items st)
      in (if first < int (length xs')
          then (if 0 \<le> first
                then \<lparr>items = xs', selectedIndexes = [first], currentIndex = first\<rparr>
                else \<lparr>items = xs', selectedIndexes = [], currentIndex = -1\<rparr>)
          else if xs' \<noteq> []
          then (if 0 \<le> first - 1 \<and> first - 1 < int (length xs')
                then \<lparr>items = xs', selectedIndexes = [first - 1], currentIndex = first - 1\<rparr>
                else \<lparr>items = xs', selectedIndexes = [], currentIndex = -1\<rparr>)
          else \<lparr>items = xs', selectedIndexes = [], currentIndex = -1\<rparr>,
          sort (selectedIndexes st)))"
  using assms
  by (cases st) (simp add: deleteSelectedItems_def Let_def view_defs)


text \<open>
  C4. With at least one item selected (the selected rows are distinct rows of the model)
  \<open>deleteSelectedItems\<close> returns the selected rows in ascending order, the first of
  them the least selected row, and leaves the list without exactly the items of the
  selected rows, the others in their order. Afterwards the item at the row of the first
  deleted item is selected and current when that row is still in the list, otherwise the
  new last item is, and nothing is when the list has become empty. Deleting rows 3 and 1
  of \<open>[A, B, C, D, E]\<close> gives \<open>[A, C, E]\<close> with row 1, the item \<open>C\<close>, selected.
\<close>

theorem deleteSelectedItems_correct:
  assumes sel: "selectedIndexes st \<noteq> []" and dist: "distinct (selectedIndexes st)"
    and valid: "\<forall>i \<in> set (selectedIndexes st). validIndex st i"
    and res: "deleteSelectedItems st = (st', deleted)"
  shows "deleted = sort (selectedIndexes st)
     \<and> hd deleted = Min (set (selectedIndexes st))
     \<and> items st' = nths (items st) {j. int j \<notin> set (selectedIndexes st)}
     \<and> length (items st') = length (items st) - length (selectedIndexes st)
     \<and> (hd deleted < int (length (items st')) \<longrightarrow>
          selectedIndexes st' = [hd deleted] \<and> currentIndex st' = hd deleted)
     \<and> (\<not> hd deleted < int (length (items st')) \<and> items st' \<noteq> [] \<longrightarrow>
          selectedIndexes st' = [int (length (items st')) - 1]
          \<and> currentIndex st' = int (length (items st')) - 1)
     \<and> (items st' = [] \<longrightarrow> selectedIndexes st' = [] \<and> currentIndex st' = -1)
     \<and> deleteSelectedItems \<lparr>items = ''ABCDE'', selectedIndexes = [3, 1], currentIndex = 3\<rparr>
          = (\<lparr>items = ''ACE'', selectedIndexes = [1], currentIndex = 1\<rparr>, [1, 3])"
proof -
  define asc where "asc = sort (selectedIndexes st)"
  define first where "first = hd asc"
  define xs' where "xs' = removeSelected asc 0 (items st)"
  have asc1: "sorted asc" and asc2: "distinct asc"
    and asc3: "set asc = set (selectedIndexes st)"
    and asc4: "length asc = length (selectedIndexes st)"
    using dist by (simp_all add: asc_def)
  have rng: "\<forall>i \<in> set asc. int 0 \<le> i \<and> i < int (length (items st)) + int 0"
    using valid asc3 by (simp add: validIndex_def)
  note rs = removeSelected_nths [OF asc1 asc2 rng]
  have rem: "xs' = nths (items st) {j. int j \<notin> set (selectedIndexes st)}"
    using rs [THEN conjunct1] asc3 by (simp add: xs'_def)
  have len: "length xs' = length (items st) - length (selectedIndexes st)"
    using rs [THEN conjunct2] asc4 by (simp add: xs'_def)
  have first_min: "first = Min (set (selectedIndexes st))"
    and first_in: "first \<in> set (selectedIndexes st)"
    using sort_facts(2,3) [OF sel] by (simp_all add: first_def asc_def)
  have first_le: "\<forall>i \<in> set (selectedIndexes st). first \<le> i \<and> i < int (length (items st))"
    using first_min valid by (simp add: validIndex_def)
  have first0: "0 \<le> first"
    using first_in valid by (auto simp: validIndex_def)
  have bound: "nat first + length (selectedIndexes st) \<le> length (items st)"
    by (rule selected_count_bound [OF dist first_le first0 sel])
  have ge: "first \<le> int (length xs')"
    using bound len first0 by linarith
  have "deleteSelectedItems st =
      (if first < int (length xs')
          then (if 0 \<le> first
                then \<lparr>items = xs', selectedIndexes = [first], currentIndex = first\<rparr>
                else \<lparr>items = xs', selectedIndexes = [], currentIndex = -1\<rparr>)
          else if xs' \<noteq> []
          then (if 0 \<le> first - 1 \<and> first - 1 < int (length xs')
                then \<lparr>items = xs', selectedIndexes = [first - 1], currentIndex = first - 1\<rparr>
                else \<lparr>items = xs', selectedIndexes = [], currentIndex = -1\<rparr>)
          else \<lparr>items = xs', selectedIndexes = [], currentIndex = -1\<rparr>,
          asc)"
    unfolding deleteSelectedItems_unfold [OF sel] Let_def first_def xs'_def asc_def ..
  then have st': "st' = (if first < int (length xs')
          then (if 0 \<le> first
                then \<lparr>items = xs', selectedIndexes = [first], currentIndex = first\<rparr>
                else \<lparr>items = xs', selectedIndexes = [], currentIndex = -1\<rparr>)
          else if xs' \<noteq> []
          then (if 0 \<le> first - 1 \<and> first - 1 < int (length xs')
                then \<lparr>items = xs', selectedIndexes = [first - 1], currentIndex = first - 1\<rparr>
                else \<lparr>items = xs', selectedIndexes = [], currentIndex = -1\<rparr>)
          else \<lparr>items = xs', selectedIndexes = [], currentIndex = -1\<rparr>)"
    and del: "deleted = asc"
    using res by simp_all
  have its: "items st' = xs'"
    by (simp add: st')
  have c1: "first < int (length xs') \<Longrightarrow> selectedIndexes st' = [first] \<and> currentIndex st' = first"
    using first0 by (simp add: st')
  have c2: "\<not> first < int (length xs') \<Longrightarrow> xs' \<noteq> [] \<Longrightarrow>
      selectedIndexes st' = [int (length xs') - 1] \<and> currentIndex st' = int (length xs') - 1"
  proof -
    assume a: "\<not> first < int (length xs')" "xs' \<noteq> []"
    then have f: "first = int (length xs')" using ge by simp
    have "0 < length xs'" using a(2) by simp
    then have "0 \<le> first - 1 \<and> first - 1 < int (length xs')" using f by simp
    then show ?thesis using a f by (simp add: st')
  qed
  have c3: "xs' = [] \<Longrightarrow> selectedIndexes st' = [] \<and> currentIndex st' = -1"
    using first0 by (simp add: st')
  have hd: "hd deleted = first" by (simp add: del first_def)
  show ?thesis
    unfolding hd its
    using del [unfolded asc_def] first_min rem len c1 c2 c3 deleteSelectedItems_example
    by blast
qed




theorem deleteSelectedItems_correct_witness:
  "selectedIndexes \<lparr>items = ''ABCDE'', selectedIndexes = [3, 1], currentIndex = 3\<rparr> \<noteq> []
   \<and> distinct (selectedIndexes \<lparr>items = ''ABCDE'', selectedIndexes = [3, 1], currentIndex = 3\<rparr>)
   \<and> validIndex \<lparr>items = ''ABCDE'', selectedIndexes = [3, 1], currentIndex = 3\<rparr> 3
   \<and> validIndex \<lparr>items = ''ABCDE'', selectedIndexes = [3, 1], currentIndex = 3\<rparr> 1
   \<and> deleteSelectedItems \<lparr>items = ''ABCDE'', selectedIndexes = [3, 1], currentIndex = 3\<rparr>
        = (\<lparr>items = ''ACE'', selectedIndexes = [1], currentIndex = 1\<rparr>, [1, 3])
   \<and> items \<lparr>items = ''ACE'', selectedIndexes = [1], currentIndex = 1\<rparr>
        = nths (items \<lparr>items = ''ABCDE'', selectedIndexes = [3, 1], currentIndex = 3\<rparr>)
            {j. int j \<notin> set (selectedIndexes
                \<lparr>items = ''ABCDE'', selectedIndexes = [3, 1], currentIndex = 3\<rparr>)}"
proof -
  let ?st = "\<lparr>items = ''ABCDE'', selectedIndexes = [3, 1], currentIndex = 3\<rparr>"
  have h1: "selectedIndexes ?st \<noteq> []" by simp
  have h2: "distinct (selectedIndexes ?st)" by simp
  have h3: "\<forall>i \<in> set (selectedIndexes ?st). validIndex ?st i" by (simp add: validIndex_def)
  have h4: "deleteSelectedItems ?st
      = (\<lparr>items = ''ACE'', selectedIndexes = [1], currentIndex = 1\<rparr>, [1, 3])"
    by (rule deleteSelectedItems_example)
  have v: "validIndex ?st 3" "validIndex ?st 1" by (simp_all add: validIndex_def)
  note t = deleteSelectedItems_correct [OF h1 h2 h3 h4]
  from t have "items \<lparr>items = ''ACE'', selectedIndexes = [1], currentIndex = 1\<rparr>
        = nths (items ?st) {j. int j \<notin> set (selectedIndexes ?st)}"
    by (elim conjE)
  with h1 h2 v h4 show ?thesis by (intro conjI)
qed

subsection \<open>Reloading a list from a directory\<close>

lemma scanDir_eq: "scanDir isDesiredFile mkItem files = map mkItem (filter isDesiredFile files)"
proof -
  have "foldl (\<lambda>model file. if isDesiredFile file then model @ [mkItem file] else model) acc files
      = acc @ map mkItem (filter isDesiredFile files)" for acc
    by (induction files arbitrary: acc) simp_all
  then show ?thesis by (simp add: scanDir_def)
qed

lemma findSuch_bounds: "- 1 \<le> findSuch xs P \<and> findSuch xs P < int (length xs)"
  by (induction xs) (auto simp: Let_def)

lemma findSuch_found:
  "0 \<le> findSuch xs P \<Longrightarrow> P (xs ! nat (findSuch xs P))"
proof (induction xs)
  case Nil
  then show ?case by simp
next
  case (Cons x xs)
  show ?case
  proof (cases "P x")
    case True
    then show ?thesis by simp
  next
    case False
    with Cons.prems have r: "0 \<le> findSuch xs P"
      by (simp add: Let_def split: if_splits)
    then have "nat (findSuch xs P + 1) = Suc (nat (findSuch xs P))" by simp
    with False r Cons.IH show ?thesis by (simp add: Let_def)
  qed
qed

lemma findSuch_nonneg_iff: "0 \<le> findSuch xs P \<longleftrightarrow> (\<exists>x \<in> set xs. P x)"
proof (induction xs)
  case Nil
  then show ?case by simp
next
  case (Cons x xs)
  then show ?case using findSuch_bounds [of xs P] by (auto simp: Let_def)
qed

lemma selectItemByIndex_found:
  assumes "0 \<le> findSuch (items st) P"
  shows "selectItemByIndex st (findSuch (items st) P) =
     st\<lparr>selectedIndexes :=
          (if findSuch (items st) P \<notin> set (selectedIndexes st)
           then selectedIndexes st @ [findSuch (items st) P] else selectedIndexes st)\<rparr>"
  using assms findSuch_bounds [of "items st" P]
  by (cases st) (simp add: selectItemByIndex_def validIndex_def)

lemma selectItemsByIDs_restoreRows:
  "selectItemsByIDs getID st itemIDs =
     st\<lparr>selectedIndexes := restoreRows getID (items st) (selectedIndexes st) itemIDs\<rparr>"
proof (induction itemIDs arbitrary: st)
  case Nil
  then show ?case by (simp add: selectItemsByIDs_def restoreRows_def)
next
  case (Cons itemID itemIDs)
  define idx where "idx = findSuch (items st) (\<lambda>item. getID item = itemID)"
  define st1 where "st1 = (if idx \<ge> 0 then selectItemByIndex st idx else st)"
  have st1: "st1 = st\<lparr>selectedIndexes :=
      (if idx \<ge> 0 \<and> idx \<notin> set (selectedIndexes st) then selectedIndexes st @ [idx]
       else selectedIndexes st)\<rparr>"
    unfolding st1_def idx_def
    by (simp add: selectItemByIndex_found)
  have "selectItemsByIDs getID st (itemID # itemIDs) = selectItemsByIDs getID st1 itemIDs"
    by (simp add: selectItemsByIDs_def st1_def idx_def Let_def)
  also have "\<dots> = st1\<lparr>selectedIndexes := restoreRows getID (items st1) (selectedIndexes st1) itemIDs\<rparr>"
    by (rule Cons.IH)
  also have "\<dots> = st\<lparr>selectedIndexes := restoreRows getID (items st) (selectedIndexes st) (itemID # itemIDs)\<rparr>"
    by (simp add: st1 restoreRows_def idx_def Let_def)
  finally show ?case .
qed


lemma restoreRows_Nil: "restoreRows getID model rows [] = rows"
  by (simp add: restoreRows_def)

lemma restoreRows_Cons:
  "restoreRows getID model rows (itemID # itemIDs) =
     restoreRows getID model
       (if 0 \<le> findSuch model (\<lambda>item. getID item = itemID)
           \<and> findSuch model (\<lambda>item. getID item = itemID) \<notin> set rows
        then rows @ [findSuch model (\<lambda>item. getID item = itemID)] else rows) itemIDs"
  by (simp add: restoreRows_def Let_def)

text \<open>A row is canonical when it is the first row that carries its ID.\<close>

lemma findSuch_canonical:
  assumes "0 \<le> findSuch model (\<lambda>item. getID item = itemID)"
  shows "findSuch model (\<lambda>item. getID item = getID (model ! nat (findSuch model (\<lambda>item. getID item = itemID))))
     = findSuch model (\<lambda>item. getID item = itemID)"
  using findSuch_found [OF assms] by simp

lemma restoreRows_invariant:
  assumes "distinct rows"
    and "\<forall>j \<in> set rows. 0 \<le> j \<and> findSuch model (\<lambda>item. getID item = getID (model ! nat j)) = j"
  shows "distinct (restoreRows getID model rows itemIDs)
     \<and> (\<forall>j \<in> set (restoreRows getID model rows itemIDs).
          0 \<le> j \<and> findSuch model (\<lambda>item. getID item = getID (model ! nat j)) = j)"
  using assms
proof (induction itemIDs arbitrary: rows)
  case Nil
  then show ?case by (simp add: restoreRows_Nil)
next
  case (Cons itemID itemIDs)
  show ?case
    unfolding restoreRows_Cons
    by (rule Cons.IH) (use Cons.prems findSuch_canonical [of model getID itemID] in auto)
qed

lemma restoreRows_replay:
  assumes "distinct rows"
    and "\<forall>j \<in> set rows. 0 \<le> j \<and> findSuch model (\<lambda>item. getID item = getID (model ! nat j)) = j"
    and "set acc \<inter> set rows = {}"
  shows "restoreRows getID model acc (map (\<lambda>j. getID (model ! nat j)) rows) = acc @ rows"
  using assms
proof (induction rows arbitrary: acc)
  case Nil
  then show ?case by (simp add: restoreRows_Nil)
next
  case (Cons j rows)
  have j: "0 \<le> j" "findSuch model (\<lambda>item. getID item = getID (model ! nat j)) = j" "j \<notin> set acc"
    using Cons.prems by auto
  have "restoreRows getID model acc (map (\<lambda>j. getID (model ! nat j)) (j # rows))
      = restoreRows getID model (acc @ [j]) (map (\<lambda>j. getID (model ! nat j)) rows)"
    using j by (simp add: restoreRows_Cons)
  also have "\<dots> = (acc @ [j]) @ rows"
    by (rule Cons.IH) (use Cons.prems in auto)
  finally show ?case by simp
qed

lemma restoreRows_set:
  "set (restoreRows getID model rows itemIDs) =
     set rows \<union> {findSuch model (\<lambda>item. getID item = itemID) | itemID.
                   itemID \<in> set itemIDs \<and> 0 \<le> findSuch model (\<lambda>item. getID item = itemID)}"
proof (induction itemIDs arbitrary: rows)
  case Nil
  then show ?case by (simp add: restoreRows_Nil)
next
  case (Cons itemID itemIDs)
  show ?case
    unfolding restoreRows_Cons Cons.IH by auto
qed


lemma setCurrentItemByID_eq:
  "setCurrentItemByID getID st itemID =
     (if itemID \<noteq> [] \<and> 0 \<le> findSuch (items st) (\<lambda>item. getID item = itemID)
      then (st\<lparr>currentIndex := findSuch (items st) (\<lambda>item. getID item = itemID)\<rparr>, True)
      else (st, False))"
  using findSuch_bounds [of "items st" "\<lambda>item. getID item = itemID"]
  by (simp add: setCurrentItemByID_def setCurrentItemByIndex_def validIndex_def Let_def)

lemma updateListFromDir_eq:
  "updateListFromDir getID isDesiredFile mkItem files st =
     \<lparr>items = scanDir isDesiredFile mkItem files,
      selectedIndexes =
        restoreRows getID (scanDir isDesiredFile mkItem files) [] (getSelectedItemIDs getID st),
      currentIndex =
        (if getCurrentItemID getID st \<noteq> []
            \<and> 0 \<le> findSuch (scanDir isDesiredFile mkItem files)
                      (\<lambda>item. getID item = getCurrentItemID getID st)
         then findSuch (scanDir isDesiredFile mkItem files)
                (\<lambda>item. getID item = getCurrentItemID getID st)
         else -1)\<rparr>"
  by (cases st)
    (simp add: updateListFromDir_def Let_def selectItemsByIDs_restoreRows setCurrentItemByID_eq
      deselectAllAndUnsetCurrent_def deselectSelectedItems_def unsetCurrentItem_def)

text \<open>
  C5. Reloading twice from the same files, with the same filter, is idempotent: the
  second reload leaves the state of the first, that is the same list, the same selected
  rows, hence the same selected IDs, and the same current row, hence the same current ID.
  The rows of the view before the first reload are rows of the model.
\<close>

theorem updateListFromDir_idempotent:
  assumes "\<forall>i \<in> set (selectedIndexes st). validIndex st i"
    and "currentIndex st < int (length (items st))"
  shows "updateListFromDir getID isDesiredFile mkItem files
           (updateListFromDir getID isDesiredFile mkItem files st)
         = updateListFromDir getID isDesiredFile mkItem files st"
proof -
  define model where "model = scanDir isDesiredFile mkItem files"
  define rows where "rows = restoreRows getID model [] (getSelectedItemIDs getID st)"
  define cur where "cur = (if getCurrentItemID getID st \<noteq> []
            \<and> 0 \<le> findSuch model (\<lambda>item. getID item = getCurrentItemID getID st)
         then findSuch model (\<lambda>item. getID item = getCurrentItemID getID st) else -1)"
  define st1 where "st1 = \<lparr>items = model, selectedIndexes = rows, currentIndex = cur\<rparr>"
  have first: "updateListFromDir getID isDesiredFile mkItem files st = st1"
    by (simp add: updateListFromDir_eq st1_def model_def rows_def cur_def)
  have inv: "distinct rows
     \<and> (\<forall>j \<in> set rows. 0 \<le> j \<and> findSuch model (\<lambda>item. getID item = getID (model ! nat j)) = j)"
    unfolding rows_def by (rule restoreRows_invariant) simp_all
  have ids: "getSelectedItemIDs getID st1 = map (\<lambda>j. getID (model ! nat j)) rows"
    by (simp add: getSelectedItemIDs_def getSelectedItemIndexes_def st1_def)
  have rows': "restoreRows getID model [] (getSelectedItemIDs getID st1) = rows"
    unfolding ids using restoreRows_replay [of rows model getID "[]"] inv by simp
  have cur': "(if getCurrentItemID getID st1 \<noteq> []
            \<and> 0 \<le> findSuch model (\<lambda>item. getID item = getCurrentItemID getID st1)
         then findSuch model (\<lambda>item. getID item = getCurrentItemID getID st1) else -1) = cur"
  proof (cases "0 \<le> cur")
    case True
    then have c: "getCurrentItemID getID st \<noteq> []"
      "0 \<le> findSuch model (\<lambda>item. getID item = getCurrentItemID getID st)"
      "cur = findSuch model (\<lambda>item. getID item = getCurrentItemID getID st)"
      by (auto simp: cur_def split: if_splits)
    have "getID (model ! nat cur) = getCurrentItemID getID st"
      using findSuch_found [OF c(2)] c(3) by simp
    then have "getCurrentItemID getID st1 = getCurrentItemID getID st"
      using True by (simp add: getCurrentItemID_def getCurrentItemIndex_def st1_def)
    then show ?thesis using c by simp
  next
    case False
    then have "getCurrentItemID getID st1 = []"
      by (simp add: getCurrentItemID_def getCurrentItemIndex_def st1_def)
    moreover have "cur = -1" using False by (auto simp: cur_def split: if_splits)
    ultimately show ?thesis by simp
  qed
  have "updateListFromDir getID isDesiredFile mkItem files st1 = st1"
    unfolding updateListFromDir_eq model_def [symmetric] rows' cur'
    by (simp add: st1_def)
  then show ?thesis by (simp add: first)
qed


lemma restored_ids:
  "set (map (\<lambda>j. getID (model ! nat j)) (restoreRows getID model [] itemIDs))
     = set itemIDs \<inter> getID ` set model"
proof -
  have "getID (model ! nat (findSuch model (\<lambda>item. getID item = itemID))) = itemID"
    if "0 \<le> findSuch model (\<lambda>item. getID item = itemID)" for itemID
    using findSuch_found [OF that] by simp
  moreover have "0 \<le> findSuch model (\<lambda>item. getID item = itemID) \<longleftrightarrow> itemID \<in> getID ` set model"
    for itemID
    by (auto simp: findSuch_nonneg_iff)
  ultimately show ?thesis
    by (auto simp: restoreRows_set image_iff) (metis (mono_tags, lifting))+
qed

text \<open>
  C6. When the ID of the current item is not among the IDs of the scanned entries, the
  reload leaves no current item, also when the new list is not empty, and
  \<open>setCurrentItemByID\<close> answers false instead of failing. The selection is restored all
  the same: the selected IDs after the reload are the selected IDs from before that are
  still present.
\<close>

theorem updateListFromDir_stale_current:
  assumes "\<forall>i \<in> set (selectedIndexes st). validIndex st i"
    and "currentIndex st < int (length (items st))"
    and "getCurrentItemID getID st \<notin> getID ` set (scanDir isDesiredFile mkItem files)"
  shows "currentIndex (updateListFromDir getID isDesiredFile mkItem files st) = -1
     \<and> \<not> snd (setCurrentItemByID getID
               (updateListFromDir getID isDesiredFile mkItem files st) (getCurrentItemID getID st))
     \<and> items (updateListFromDir getID isDesiredFile mkItem files st)
         = scanDir isDesiredFile mkItem files
     \<and> set (getSelectedItemIDs getID (updateListFromDir getID isDesiredFile mkItem files st))
         = set (getSelectedItemIDs getID st) \<inter> getID ` set (scanDir isDesiredFile mkItem files)
     \<and> distinct (selectedIndexes (updateListFromDir getID isDesiredFile mkItem files st))"
proof -
  define model where "model = scanDir isDesiredFile mkItem files"
  have absent: "\<not> 0 \<le> findSuch model (\<lambda>item. getID item = getCurrentItemID getID st)"
    using assms(3) unfolding findSuch_nonneg_iff model_def by (metis image_eqI)
  have cur: "currentIndex (updateListFromDir getID isDesiredFile mkItem files st) = -1"
    using absent by (simp add: updateListFromDir_eq model_def)
  have its: "items (updateListFromDir getID isDesiredFile mkItem files st) = model"
    by (simp add: updateListFromDir_eq model_def)
  have ret: "\<not> snd (setCurrentItemByID getID
               (updateListFromDir getID isDesiredFile mkItem files st) (getCurrentItemID getID st))"
    using absent by (simp add: setCurrentItemByID_eq its)
  have ids: "set (getSelectedItemIDs getID (updateListFromDir getID isDesiredFile mkItem files st))
         = set (getSelectedItemIDs getID st) \<inter> getID ` set model"
    using restored_ids [of getID model "getSelectedItemIDs getID st"]
    by (simp add: getSelectedItemIDs_def getSelectedItemIndexes_def updateListFromDir_eq
        model_def)
  have dist: "distinct (selectedIndexes (updateListFromDir getID isDesiredFile mkItem files st))"
    using restoreRows_invariant [of "[]" model getID "getSelectedItemIDs getID st"]
    by (simp add: updateListFromDir_eq model_def)
  show ?thesis
    using cur ret its ids dist unfolding model_def by blast
qed


lemma example_reload:
  "updateListFromDir (\<lambda>item. item) (\<lambda>file. file \<noteq> ''x'') (\<lambda>file. file)
     [''a'', ''x'', ''b'', ''c''] example_list
   = \<lparr>items = [''a'', ''b'', ''c''], selectedIndexes = [0, 2], currentIndex = 2\<rparr>"
  by (simp add: updateListFromDir_eq scanDir_eq restoreRows_def getSelectedItemIDs_def
      getSelectedItemIndexes_def getCurrentItemID_def getCurrentItemIndex_def example_list_def
      Let_def)

lemma example_stale_reload:
  "updateListFromDir (\<lambda>item. item) (\<lambda>file. file \<noteq> ''x'') (\<lambda>file. file)
     [''a'', ''x'', ''b'', ''c''] example_stale
   = \<lparr>items = [''a'', ''b'', ''c''], selectedIndexes = [0, 2], currentIndex = -1\<rparr>"
  by (simp add: updateListFromDir_eq scanDir_eq restoreRows_def getSelectedItemIDs_def
      getSelectedItemIndexes_def getCurrentItemID_def getCurrentItemIndex_def example_stale_def
      Let_def)

theorem updateListFromDir_idempotent_witness:
  "selectedIndexes example_list = [2, 0, 1]
   \<and> validIndex example_list 2 \<and> validIndex example_list 0 \<and> validIndex example_list 1
   \<and> currentIndex example_list < int (length (items example_list))
   \<and> updateListFromDir (\<lambda>item. item) (\<lambda>file. file \<noteq> ''x'') (\<lambda>file. file)
        [''a'', ''x'', ''b'', ''c'']
        (updateListFromDir (\<lambda>item. item) (\<lambda>file. file \<noteq> ''x'') (\<lambda>file. file)
           [''a'', ''x'', ''b'', ''c''] example_list)
     = \<lparr>items = [''a'', ''b'', ''c''], selectedIndexes = [0, 2], currentIndex = 2\<rparr>"
proof -
  have h1: "\<forall>i \<in> set (selectedIndexes example_list). validIndex example_list i"
    by (simp add: example_list_def validIndex_def)
  have h2: "currentIndex example_list < int (length (items example_list))"
    by (simp add: example_list_def)
  note t = updateListFromDir_idempotent [OF h1 h2, where getID = "\<lambda>item. item"
      and isDesiredFile = "\<lambda>file. file \<noteq> ''x''" and mkItem = "\<lambda>file. file"
      and files = "[''a'', ''x'', ''b'', ''c'']"]
  have "updateListFromDir (\<lambda>item. item) (\<lambda>file. file \<noteq> ''x'') (\<lambda>file. file)
        [''a'', ''x'', ''b'', ''c'']
        (updateListFromDir (\<lambda>item. item) (\<lambda>file. file \<noteq> ''x'') (\<lambda>file. file)
           [''a'', ''x'', ''b'', ''c''] example_list)
     = \<lparr>items = [''a'', ''b'', ''c''], selectedIndexes = [0, 2], currentIndex = 2\<rparr>"
    using t example_reload by (rule trans)
  moreover have "selectedIndexes example_list = [2, 0, 1]"
    "validIndex example_list 2" "validIndex example_list 0" "validIndex example_list 1"
    by (simp_all add: example_list_def validIndex_def)
  ultimately show ?thesis using h2 by (intro conjI)
qed

theorem updateListFromDir_stale_current_witness:
  "selectedIndexes example_stale = [2, 0, 1]
   \<and> validIndex example_stale 2 \<and> validIndex example_stale 0 \<and> validIndex example_stale 1
   \<and> currentIndex example_stale < int (length (items example_stale))
   \<and> getCurrentItemID (\<lambda>item. item) example_stale
        \<notin> (\<lambda>item. item) ` set (scanDir (\<lambda>file. file \<noteq> ''x'') (\<lambda>file. file) [''a'', ''x'', ''b'', ''c''])
   \<and> currentIndex (updateListFromDir (\<lambda>item. item) (\<lambda>file. file \<noteq> ''x'') (\<lambda>file. file)
        [''a'', ''x'', ''b'', ''c''] example_stale) = -1
   \<and> updateListFromDir (\<lambda>item. item) (\<lambda>file. file \<noteq> ''x'') (\<lambda>file. file)
        [''a'', ''x'', ''b'', ''c''] example_stale
     = \<lparr>items = [''a'', ''b'', ''c''], selectedIndexes = [0, 2], currentIndex = -1\<rparr>"
proof -
  have h1: "\<forall>i \<in> set (selectedIndexes example_stale). validIndex example_stale i"
    by (simp add: example_stale_def validIndex_def)
  have h2: "currentIndex example_stale < int (length (items example_stale))"
    by (simp add: example_stale_def)
  have h3: "getCurrentItemID (\<lambda>item. item) example_stale
        \<notin> (\<lambda>item. item) ` set (scanDir (\<lambda>file. file \<noteq> ''x'') (\<lambda>file. file) [''a'', ''x'', ''b'', ''c''])"
    by (simp add: scanDir_eq getCurrentItemID_def getCurrentItemIndex_def example_stale_def)
  note t = updateListFromDir_stale_current [OF h1 h2 h3]
  from t have "currentIndex (updateListFromDir (\<lambda>item. item) (\<lambda>file. file \<noteq> ''x'') (\<lambda>file. file)
        [''a'', ''x'', ''b'', ''c''] example_stale) = -1"
    by (elim conjE)
  moreover have "selectedIndexes example_stale = [2, 0, 1]"
    "validIndex example_stale 2" "validIndex example_stale 0" "validIndex example_stale 1"
    by (simp_all add: example_stale_def validIndex_def)
  ultimately show ?thesis using h2 h3 example_stale_reload by (intro conjI)
qed

section \<open>Properties of the run command\<close>

lemma grantDirs_eq:
  "grantDirs env base dirs (parts, perms) =
     (parts @ map (\<lambda>dir. maybeQuoted base (''--filesystem='' @ getAbsolutePath env dir)) dirs,
      perms @ map (\<lambda>dir. ''--filesystem='' @ getAbsolutePath env dir) dirs)"
proof -
  have "foldl (\<lambda>(cmdParts, perms) dir.
              (let fileSystemPermission = ''--filesystem='' @ getAbsolutePath env dir
               in (cmdParts @ [maybeQuoted base fileSystemPermission], perms @ [fileSystemPermission])))
           (parts, perms) dirs
      = (parts @ map (\<lambda>dir. maybeQuoted base (''--filesystem='' @ getAbsolutePath env dir)) dirs,
         perms @ map (\<lambda>dir. ''--filesystem='' @ getAbsolutePath env dir) dirs)"
    by (induction dirs arbitrary: parts perms) (simp_all add: Let_def)
  then show ?thesis by (simp add: grantDirs_def)
qed

lemma sandboxParts_eq:
  "sandboxParts env executablePath base dirs host =
     (if sandboxEnv (getExecutableTraits executablePath) = Sandbox_Snap then
        (host @ [''snap'', ''run'', sandboxAppName (getExecutableTraits executablePath)], [])
      else if sandboxEnv (getExecutableTraits executablePath) = Sandbox_Flatpak then
        (host @ [''flatpak'', ''run'']
           @ map (\<lambda>dir. maybeQuoted base (''--filesystem='' @ getAbsolutePath env dir)) dirs
           @ [sandboxAppName (getExecutableTraits executablePath)],
         map (\<lambda>dir. ''--filesystem='' @ getAbsolutePath env dir) dirs)
      else if isInSearchPath env executablePath then
        (host @ [getFileNameFromPath executablePath], [])
      else
        (host @ [maybeQuoted base (fixExePath env (rebasePath base executablePath))], []))"
  by (simp add: sandboxParts_def Let_def grantDirs_eq)

lemma getRunCommand_parts:
  assumes "\<not> (flatpakBuild env \<and> getAbsoluteDirOfFile env executablePath = applicationDirPath env)"
  shows "executable (getRunCommand env executablePath base dirs)
           # arguments (getRunCommand env executablePath base dirs)
         = fst (sandboxParts env executablePath base dirs
                 (if flatpakBuild env then [''flatpak-spawn'', ''--host''] else []))"
    and "extraPermissions (getRunCommand env executablePath base dirs)
         = snd (sandboxParts env executablePath base dirs
                 (if flatpakBuild env then [''flatpak-spawn'', ''--host''] else []))"
proof -
  define host where "host = (if flatpakBuild env then [''flatpak-spawn'', ''--host''] else [])"
  obtain parts perms where sp: "sandboxParts env executablePath base dirs host = (parts, perms)"
    by (cases "sandboxParts env executablePath base dirs host")
  have ne: "parts \<noteq> []"
    using sp by (auto simp: sandboxParts_eq split: if_splits)
  have cmd: "getRunCommand env executablePath base dirs
      = \<lparr>executable = hd parts, arguments = tl parts, extraPermissions = perms\<rparr>"
    using assms sp unfolding getRunCommand_def host_def [symmetric] by (auto simp: Let_def)
  show "executable (getRunCommand env executablePath base dirs)
           # arguments (getRunCommand env executablePath base dirs)
         = fst (sandboxParts env executablePath base dirs
                 (if flatpakBuild env then [''flatpak-spawn'', ''--host''] else []))"
    unfolding host_def [symmetric] using cmd sp ne by simp
  show "extraPermissions (getRunCommand env executablePath base dirs)
         = snd (sandboxParts env executablePath base dirs
                 (if flatpakBuild env then [''flatpak-spawn'', ''--host''] else []))"
    unfolding host_def [symmetric] using cmd sp by simp
qed


lemma getRunCommand_early:
  assumes "flatpakBuild env" and "getAbsoluteDirOfFile env executablePath = applicationDirPath env"
  shows "getRunCommand env executablePath base dirs
     = \<lparr>executable = getFileNameFromPath executablePath, arguments = [], extraPermissions = []\<rparr>"
  using assms by (simp add: getRunCommand_def)

lemma flatpak_gzdoom_traits:
  "sandboxEnv (getExecutableTraits flatpak_gzdoom) = Sandbox_Flatpak"
  "sandboxAppName (getExecutableTraits flatpak_gzdoom) = ''org.example.App''"
  by (simp_all add: getExecutableTraits_def snapRegex_match_def flatpakRegex_match_def
      flatpak_gzdoom_def Let_def)

lemma snap_gzdoom_traits:
  "sandboxEnv (getExecutableTraits ''/snap/bin/gzdoom'') = Sandbox_Snap"
  "sandboxAppName (getExecutableTraits ''/snap/bin/gzdoom'') = ''gzdoom''"
  by (simp_all add: getExecutableTraits_def snapRegex_match_def getFileNameFromPath_def)

lemma plain_traits:
  "sandboxEnv (getExecutableTraits ''/app/bin/zdoom'') = Sandbox_None"
  "sandboxEnv (getExecutableTraits ''/opt/my games/zdoom'') = Sandbox_None"
  "sandboxEnv (getExecutableTraits ''/usr/bin/gzdoom'') = Sandbox_None"
  "sandboxEnv (getExecutableTraits ''zdoom'') = Sandbox_None"
  by (simp_all add: getExecutableTraits_def snapRegex_match_def flatpakRegex_match_def Let_def)


lemma getRunCommand_commandLine:
  assumes "\<not> (flatpakBuild env \<and> getAbsoluteDirOfFile env executablePath = applicationDirPath env)"
  shows "commandLine (getRunCommand env executablePath base dirs)
         = fst (sandboxParts env executablePath base dirs (hostEscape env))"
    and "extraPermissions (getRunCommand env executablePath base dirs)
         = snd (sandboxParts env executablePath base dirs (hostEscape env))"
  using getRunCommand_parts [OF assms] by (simp_all add: commandLine_def hostEscape_def)

lemmas os_example_defs =
  unix_env_def flatpak_env_def abs_context_def rel_context_def dirOfFile_def
  getFileNameFromPath_def isInSearchPath_def fixExePath_def rebasePath_def maybeQuoted_def
  quoted_def

lemma flatpak_example:
  "getRunCommand unix_env flatpak_gzdoom abs_context [''/a'', ''/b'']
     = \<lparr>executable = ''flatpak'',
        arguments = [''run'', ''--filesystem=/a'', ''--filesystem=/b'', ''org.example.App''],
        extraPermissions = [''--filesystem=/a'', ''--filesystem=/b'']\<rparr>"
  by (simp add: getRunCommand_def sandboxParts_eq flatpak_gzdoom_traits os_example_defs)

text \<open>
  C1. Unless the launcher is built as Flatpak and the executable lies in the launcher's
  own directory, the command is: for Snap \<open>snap run <app name>\<close>; for Flatpak
  \<open>flatpak run\<close>, then for each directory of the list, in its order, one token
  \<open>--filesystem=<absolute directory>\<close> passed through \<open>maybeQuoted\<close> (the same
  permissions, unquoted, are the extra permissions), then the application name; for no
  sandbox the reference to the executable alone. In a launcher built as Flatpak these
  tokens follow \<open>flatpak-spawn --host\<close>, and an executable in the launcher's own
  directory is run by its bare file name, without any prefix. For the directories
  \<open>/a\<close> and \<open>/b\<close> the command has exactly the two flags, before the application name.
\<close>

theorem getRunCommand_sandbox_prefix:
  "(\<not> (flatpakBuild env \<and> getAbsoluteDirOfFile env p = applicationDirPath env) \<longrightarrow>
      (sandboxEnv (getExecutableTraits p) = Sandbox_Snap \<longrightarrow>
         commandLine (getRunCommand env p base dirs)
           = hostEscape env @ [''snap'', ''run'', sandboxAppName (getExecutableTraits p)]
         \<and> extraPermissions (getRunCommand env p base dirs) = [])
    \<and> (sandboxEnv (getExecutableTraits p) = Sandbox_Flatpak \<longrightarrow>
         commandLine (getRunCommand env p base dirs)
           = hostEscape env @ [''flatpak'', ''run'']
             @ map (\<lambda>dir. maybeQuoted base (''--filesystem='' @ getAbsolutePath env dir)) dirs
             @ [sandboxAppName (getExecutableTraits p)]
         \<and> extraPermissions (getRunCommand env p base dirs)
           = map (\<lambda>dir. ''--filesystem='' @ getAbsolutePath env dir) dirs)
    \<and> (sandboxEnv (getExecutableTraits p) = Sandbox_None \<longrightarrow>
         commandLine (getRunCommand env p base dirs)
           = hostEscape env
             @ [if isInSearchPath env p then getFileNameFromPath p
                else maybeQuoted base (fixExePath env (rebasePath base p))]
         \<and> extraPermissions (getRunCommand env p base dirs) = []))
   \<and> (flatpakBuild env \<and> getAbsoluteDirOfFile env p = applicationDirPath env \<longrightarrow>
        getRunCommand env p base dirs
          = \<lparr>executable = getFileNameFromPath p, arguments = [], extraPermissions = []\<rparr>)
   \<and> \<not> flatpakBuild unix_env
   \<and> getRunCommand unix_env flatpak_gzdoom abs_context [''/a'', ''/b'']
        = \<lparr>executable = ''flatpak'',
           arguments = [''run'', ''--filesystem=/a'', ''--filesystem=/b'', ''org.example.App''],
           extraPermissions = [''--filesystem=/a'', ''--filesystem=/b'']\<rparr>"
proof -
  have a: "commandLine (getRunCommand env p base dirs)
             = fst (sandboxParts env p base dirs (hostEscape env))
         \<and> extraPermissions (getRunCommand env p base dirs)
             = snd (sandboxParts env p base dirs (hostEscape env))"
    if "\<not> (flatpakBuild env \<and> getAbsoluteDirOfFile env p = applicationDirPath env)"
    using getRunCommand_commandLine [OF that] by simp
  have b: "getRunCommand env p base dirs
          = \<lparr>executable = getFileNameFromPath p, arguments = [], extraPermissions = []\<rparr>"
    if "flatpakBuild env \<and> getAbsoluteDirOfFile env p = applicationDirPath env"
    using that by (simp add: getRunCommand_early)
  have c: "\<not> flatpakBuild unix_env" by (simp add: unix_env_def)
  show ?thesis
    using a b c flatpak_example by (simp add: sandboxParts_eq)
qed


lemma early_example:
  "flatpakBuild flatpak_env
   \<and> getAbsoluteDirOfFile flatpak_env ''/app/bin/zdoom'' = applicationDirPath flatpak_env"
  by (simp add: os_example_defs)

theorem getRunCommand_sandbox_prefix_witness:
  "\<not> (flatpakBuild unix_env
       \<and> getAbsoluteDirOfFile unix_env ''/snap/bin/gzdoom'' = applicationDirPath unix_env)
   \<and> sandboxEnv (getExecutableTraits ''/snap/bin/gzdoom'') = Sandbox_Snap
   \<and> commandLine (getRunCommand unix_env ''/snap/bin/gzdoom'' abs_context [''/a'', ''/b''])
       = [''snap'', ''run'', ''gzdoom'']
   \<and> \<not> (flatpakBuild unix_env
       \<and> getAbsoluteDirOfFile unix_env flatpak_gzdoom = applicationDirPath unix_env)
   \<and> sandboxEnv (getExecutableTraits flatpak_gzdoom) = Sandbox_Flatpak
   \<and> commandLine (getRunCommand unix_env flatpak_gzdoom abs_context [''/a'', ''/b''])
       = [''flatpak'', ''run'', ''--filesystem=/a'', ''--filesystem=/b'', ''org.example.App'']
   \<and> sandboxEnv (getExecutableTraits ''/usr/bin/gzdoom'') = Sandbox_None
   \<and> commandLine (getRunCommand unix_env ''/usr/bin/gzdoom'' abs_context [''/a'', ''/b''])
       = [''gzdoom'']
   \<and> flatpakBuild flatpak_env
   \<and> getAbsoluteDirOfFile flatpak_env ''/app/bin/zdoom'' = applicationDirPath flatpak_env
   \<and> getRunCommand flatpak_env ''/app/bin/zdoom'' abs_context [''/a'', ''/b'']
       = \<lparr>executable = ''zdoom'', arguments = [], extraPermissions = []\<rparr>"
proof -
  have nb: "\<not> flatpakBuild unix_env" by (simp add: unix_env_def)
  have h: "hostEscape unix_env = []" by (simp add: hostEscape_def unix_env_def)
  have fl: "map (\<lambda>dir. maybeQuoted abs_context (''--filesystem='' @ getAbsolutePath unix_env dir))
              [''/a'', ''/b''] = [''--filesystem=/a'', ''--filesystem=/b'']"
    by (simp add: maybeQuoted_def unix_env_def)
  have sp: "isInSearchPath unix_env ''/usr/bin/gzdoom''"
    "getFileNameFromPath ''/usr/bin/gzdoom'' = ''gzdoom''"
    "getFileNameFromPath ''/app/bin/zdoom'' = ''zdoom''"
    by (simp_all add: isInSearchPath_def getFileNameFromPath_def unix_env_def)
  have "commandLine (getRunCommand unix_env ''/snap/bin/gzdoom'' abs_context [''/a'', ''/b''])
       = hostEscape unix_env @ [''snap'', ''run'', sandboxAppName (getExecutableTraits ''/snap/bin/gzdoom'')]"
    using getRunCommand_sandbox_prefix [of unix_env "''/snap/bin/gzdoom''" abs_context "[''/a'', ''/b'']"]
      nb snap_gzdoom_traits(1) by blast
  then have s: "commandLine (getRunCommand unix_env ''/snap/bin/gzdoom'' abs_context [''/a'', ''/b''])
       = [''snap'', ''run'', ''gzdoom'']"
    by (simp add: h snap_gzdoom_traits(2))
  have "commandLine (getRunCommand unix_env flatpak_gzdoom abs_context [''/a'', ''/b''])
       = hostEscape unix_env @ [''flatpak'', ''run'']
         @ map (\<lambda>dir. maybeQuoted abs_context (''--filesystem='' @ getAbsolutePath unix_env dir))
             [''/a'', ''/b'']
         @ [sandboxAppName (getExecutableTraits flatpak_gzdoom)]"
    using getRunCommand_sandbox_prefix [of unix_env flatpak_gzdoom abs_context "[''/a'', ''/b'']"]
      nb flatpak_gzdoom_traits(1) by blast
  then have f: "commandLine (getRunCommand unix_env flatpak_gzdoom abs_context [''/a'', ''/b''])
       = [''flatpak'', ''run'', ''--filesystem=/a'', ''--filesystem=/b'', ''org.example.App'']"
    by (simp only: h fl flatpak_gzdoom_traits(2)) simp
  have "commandLine (getRunCommand unix_env ''/usr/bin/gzdoom'' abs_context [''/a'', ''/b''])
       = hostEscape unix_env
         @ [if isInSearchPath unix_env ''/usr/bin/gzdoom'' then getFileNameFromPath ''/usr/bin/gzdoom''
            else maybeQuoted abs_context (fixExePath unix_env (rebasePath abs_context ''/usr/bin/gzdoom''))]"
    using getRunCommand_sandbox_prefix [of unix_env "''/usr/bin/gzdoom''" abs_context "[''/a'', ''/b'']"]
      nb plain_traits(3) by blast
  then have n: "commandLine (getRunCommand unix_env ''/usr/bin/gzdoom'' abs_context [''/a'', ''/b''])
       = [''gzdoom'']"
    by (simp add: h sp)
  have "getRunCommand flatpak_env ''/app/bin/zdoom'' abs_context [''/a'', ''/b'']
       = \<lparr>executable = getFileNameFromPath ''/app/bin/zdoom'', arguments = [], extraPermissions = []\<rparr>"
    using getRunCommand_sandbox_prefix [of flatpak_env "''/app/bin/zdoom''" abs_context "[''/a'', ''/b'']"]
      early_example by blast
  then have e: "getRunCommand flatpak_env ''/app/bin/zdoom'' abs_context [''/a'', ''/b'']
       = \<lparr>executable = ''zdoom'', arguments = [], extraPermissions = []\<rparr>"
    by (simp add: sp)
  show ?thesis
    using nb s f n e early_example snap_gzdoom_traits(1) flatpak_gzdoom_traits(1) plain_traits(3)
    by blast
qed

text \<open>
  C1, as stated, fails in a launcher built as Flatpak: the command for an executable
  under \<open>/snap/\<close> begins with \<open>flatpak-spawn --host\<close>, not with \<open>snap\<close>.
\<close>

theorem getRunCommand_sandbox_prefix_counterexample:
  "sandboxEnv (getExecutableTraits ''/snap/bin/gzdoom'') = Sandbox_Snap
   \<and> getRunCommand flatpak_env ''/snap/bin/gzdoom'' abs_context [''/a'', ''/b'']
       = \<lparr>executable = ''flatpak-spawn'', arguments = [''--host'', ''snap'', ''run'', ''gzdoom''],
          extraPermissions = []\<rparr>"
  by (simp add: getRunCommand_def sandboxParts_eq snap_gzdoom_traits os_example_defs)


lemma exe_reference_eq:
  "maybeQuoted base (fixExePath env (rebasePath base p)) =
     (let rebased = (if useAbsolutePaths base then toAbsolute base p else toRelative base p);
          fixed = (if \<not> isWindows env \<and> CHR ''/'' \<notin> set rebased then ''./'' @ rebased else rebased)
      in if space \<in> set fixed then [dquote] @ fixed @ [dquote] else fixed)"
  by (simp add: maybeQuoted_def fixExePath_def rebasePath_def quoted_def Let_def)

text \<open>
  C2. For an executable outside any sandbox, unless the launcher is built as Flatpak and
  the executable lies in the launcher's own directory: when the search path resolves the
  file name of the executable to exactly its path, the command refers to it by the bare
  file name; otherwise by the path rebased by the path context (absolute or relative, per
  its toggle), with \<open>./\<close> in front when the system is not Windows and the rebased path
  has no \<open>/\<close>, and in double quotes when it has a space. In a launcher built as
  Flatpak the reference follows \<open>flatpak-spawn --host\<close>, and an executable in the
  launcher's own directory is run by its bare file name whatever the search path says.
\<close>

theorem getRunCommand_plain_executable:
  assumes "sandboxEnv (getExecutableTraits p) = Sandbox_None"
  shows "(\<not> (flatpakBuild env \<and> getAbsoluteDirOfFile env p = applicationDirPath env) \<longrightarrow>
      (findExecutable env (getFileNameFromPath p) = p \<longrightarrow>
         commandLine (getRunCommand env p base dirs) = hostEscape env @ [getFileNameFromPath p])
    \<and> (findExecutable env (getFileNameFromPath p) \<noteq> p \<longrightarrow>
         commandLine (getRunCommand env p base dirs) = hostEscape env @
           [let rebased = (if useAbsolutePaths base then toAbsolute base p else toRelative base p);
                fixed = (if \<not> isWindows env \<and> CHR ''/'' \<notin> set rebased
                         then ''./'' @ rebased else rebased)
            in if space \<in> set fixed then [dquote] @ fixed @ [dquote] else fixed])
    \<and> extraPermissions (getRunCommand env p base dirs) = [])
   \<and> (flatpakBuild env \<and> getAbsoluteDirOfFile env p = applicationDirPath env \<longrightarrow>
        getRunCommand env p base dirs
          = \<lparr>executable = getFileNameFromPath p, arguments = [], extraPermissions = []\<rparr>)
   \<and> hostEscape unix_env = []
   \<and> commandLine (getRunCommand unix_env ''/usr/bin/gzdoom'' abs_context []) = [''gzdoom'']
   \<and> commandLine (getRunCommand unix_env ''/opt/my games/zdoom'' abs_context [])
        = [[dquote] @ ''/opt/my games/zdoom'' @ [dquote]]
   \<and> commandLine (getRunCommand unix_env ''zdoom'' rel_context []) = [''./zdoom'']"
proof -
  have a: "commandLine (getRunCommand env p base dirs)
             = fst (sandboxParts env p base dirs (hostEscape env))
         \<and> extraPermissions (getRunCommand env p base dirs)
             = snd (sandboxParts env p base dirs (hostEscape env))"
    if "\<not> (flatpakBuild env \<and> getAbsoluteDirOfFile env p = applicationDirPath env)"
    using getRunCommand_commandLine [OF that] by simp
  have b: "getRunCommand env p base dirs
          = \<lparr>executable = getFileNameFromPath p, arguments = [], extraPermissions = []\<rparr>"
    if "flatpakBuild env \<and> getAbsoluteDirOfFile env p = applicationDirPath env"
    using that by (simp add: getRunCommand_early)
  have sp: "sandboxParts env p base dirs (hostEscape env) =
      (hostEscape env @ [if findExecutable env (getFileNameFromPath p) = p then getFileNameFromPath p
         else (let rebased = (if useAbsolutePaths base then toAbsolute base p else toRelative base p);
                fixed = (if \<not> isWindows env \<and> CHR ''/'' \<notin> set rebased
                         then ''./'' @ rebased else rebased)
            in if space \<in> set fixed then [dquote] @ fixed @ [dquote] else fixed)], [])"
    using assms by (simp add: sandboxParts_eq isInSearchPath_def exe_reference_eq)
  have h: "hostEscape unix_env = []" by (simp add: hostEscape_def unix_env_def)
  have e1: "commandLine (getRunCommand unix_env ''/usr/bin/gzdoom'' abs_context []) = [''gzdoom'']"
    by (simp add: commandLine_def getRunCommand_def sandboxParts_eq plain_traits os_example_defs)
  have e2: "commandLine (getRunCommand unix_env ''/opt/my games/zdoom'' abs_context [])
        = [[dquote] @ ''/opt/my games/zdoom'' @ [dquote]]"
    by (simp add: commandLine_def getRunCommand_def sandboxParts_eq plain_traits os_example_defs)
  have e3: "commandLine (getRunCommand unix_env ''zdoom'' rel_context []) = [''./zdoom'']"
    by (simp add: commandLine_def getRunCommand_def sandboxParts_eq plain_traits os_example_defs)
  have c: "\<not> (flatpakBuild env \<and> getAbsoluteDirOfFile env p = applicationDirPath env) \<longrightarrow>
      (findExecutable env (getFileNameFromPath p) = p \<longrightarrow>
         commandLine (getRunCommand env p base dirs) = hostEscape env @ [getFileNameFromPath p])
    \<and> (findExecutable env (getFileNameFromPath p) \<noteq> p \<longrightarrow>
         commandLine (getRunCommand env p base dirs) = hostEscape env @
           [let rebased = (if useAbsolutePaths base then toAbsolute base p else toRelative base p);
                fixed = (if \<not> isWindows env \<and> CHR ''/'' \<notin> set rebased
                         then ''./'' @ rebased else rebased)
            in if space \<in> set fixed then [dquote] @ fixed @ [dquote] else fixed])
    \<and> extraPermissions (getRunCommand env p base dirs) = []"
    using a sp by simp
  show ?thesis
    using c b h e1 e2 e3 by blast
qed


theorem getRunCommand_plain_executable_witness:
  "sandboxEnv (getExecutableTraits ''/opt/my games/zdoom'') = Sandbox_None
   \<and> \<not> (flatpakBuild unix_env
        \<and> getAbsoluteDirOfFile unix_env ''/opt/my games/zdoom'' = applicationDirPath unix_env)
   \<and> findExecutable unix_env (getFileNameFromPath ''/opt/my games/zdoom'') \<noteq> ''/opt/my games/zdoom''
   \<and> commandLine (getRunCommand unix_env ''/opt/my games/zdoom'' abs_context [])
        = [[dquote] @ ''/opt/my games/zdoom'' @ [dquote]]
   \<and> sandboxEnv (getExecutableTraits ''/usr/bin/gzdoom'') = Sandbox_None
   \<and> findExecutable unix_env (getFileNameFromPath ''/usr/bin/gzdoom'') = ''/usr/bin/gzdoom''
   \<and> commandLine (getRunCommand unix_env ''/usr/bin/gzdoom'' abs_context []) = [''gzdoom'']
   \<and> sandboxEnv (getExecutableTraits ''/app/bin/zdoom'') = Sandbox_None
   \<and> flatpakBuild flatpak_env
   \<and> getAbsoluteDirOfFile flatpak_env ''/app/bin/zdoom'' = applicationDirPath flatpak_env
   \<and> getRunCommand flatpak_env ''/app/bin/zdoom'' abs_context []
        = \<lparr>executable = ''zdoom'', arguments = [], extraPermissions = []\<rparr>"
proof -
  have nb: "\<not> flatpakBuild unix_env" by (simp add: unix_env_def)
  have h: "hostEscape unix_env = []" by (simp add: hostEscape_def unix_env_def)
  have f1: "findExecutable unix_env (getFileNameFromPath ''/opt/my games/zdoom'') \<noteq> ''/opt/my games/zdoom''"
    by (simp add: unix_env_def getFileNameFromPath_def)
  have f2: "findExecutable unix_env (getFileNameFromPath ''/usr/bin/gzdoom'') = ''/usr/bin/gzdoom''"
    by (simp add: unix_env_def getFileNameFromPath_def)
  have n: "getFileNameFromPath ''/usr/bin/gzdoom'' = ''gzdoom''"
    "getFileNameFromPath ''/app/bin/zdoom'' = ''zdoom''"
    by (simp_all add: getFileNameFromPath_def)
  have r: "(let rebased = (if useAbsolutePaths abs_context then toAbsolute abs_context ''/opt/my games/zdoom''
                           else toRelative abs_context ''/opt/my games/zdoom'');
                fixed = (if \<not> isWindows unix_env \<and> CHR ''/'' \<notin> set rebased
                         then ''./'' @ rebased else rebased)
            in if space \<in> set fixed then [dquote] @ fixed @ [dquote] else fixed)
           = [dquote] @ ''/opt/my games/zdoom'' @ [dquote]"
    by (simp add: abs_context_def unix_env_def)
  have "commandLine (getRunCommand unix_env ''/opt/my games/zdoom'' abs_context []) = hostEscape unix_env @
           [let rebased = (if useAbsolutePaths abs_context then toAbsolute abs_context ''/opt/my games/zdoom''
                           else toRelative abs_context ''/opt/my games/zdoom'');
                fixed = (if \<not> isWindows unix_env \<and> CHR ''/'' \<notin> set rebased
                         then ''./'' @ rebased else rebased)
            in if space \<in> set fixed then [dquote] @ fixed @ [dquote] else fixed]"
    using getRunCommand_plain_executable [OF plain_traits(2), of unix_env abs_context "[]"] nb f1
    by blast
  then have c1: "commandLine (getRunCommand unix_env ''/opt/my games/zdoom'' abs_context [])
        = [[dquote] @ ''/opt/my games/zdoom'' @ [dquote]]"
    by (simp only: r h) simp
  have "commandLine (getRunCommand unix_env ''/usr/bin/gzdoom'' abs_context [])
        = hostEscape unix_env @ [getFileNameFromPath ''/usr/bin/gzdoom'']"
    using getRunCommand_plain_executable [OF plain_traits(3), of unix_env abs_context "[]"] nb f2
    by blast
  then have c2: "commandLine (getRunCommand unix_env ''/usr/bin/gzdoom'' abs_context []) = [''gzdoom'']"
    by (simp add: h n)
  have "getRunCommand flatpak_env ''/app/bin/zdoom'' abs_context []
        = \<lparr>executable = getFileNameFromPath ''/app/bin/zdoom'', arguments = [], extraPermissions = []\<rparr>"
    using getRunCommand_plain_executable [OF plain_traits(1), of flatpak_env abs_context "[]"]
      early_example by blast
  then have c3: "getRunCommand flatpak_env ''/app/bin/zdoom'' abs_context []
        = \<lparr>executable = ''zdoom'', arguments = [], extraPermissions = []\<rparr>"
    by (simp add: n)
  show ?thesis
    using plain_traits(1,2,3) nb f1 f2 c1 c2 c3 early_example by blast
qed

text \<open>
  C2, as stated, fails in a launcher built as Flatpak: an executable in the launcher's
  own directory that the search path does not resolve is run by its bare file name, not
  by its rebased path.
\<close>

theorem getRunCommand_plain_executable_counterexample:
  "sandboxEnv (getExecutableTraits ''/app/bin/zdoom'') = Sandbox_None
   \<and> \<not> isInSearchPath flatpak_env ''/app/bin/zdoom''
   \<and> getRunCommand flatpak_env ''/app/bin/zdoom'' abs_context []
        = \<lparr>executable = ''zdoom'', arguments = [], extraPermissions = []\<rparr>
   \<and> maybeQuoted abs_context (fixExePath flatpak_env (rebasePath abs_context ''/app/bin/zdoom''))
        = ''/app/bin/zdoom''"
  by (simp add: getRunCommand_def plain_traits os_example_defs)

end
